theory Spec2Isabelle
  imports Complex_Main "HOL-Library.AList"
begin

section \<open>Python values used by the account controller\<close>

text \<open>
  The controller of \<^verbatim>\<open>custom_components/jq300/__init__.py\<close> computes with Python
  numbers, which are either \<^verbatim>\<open>int\<close> (unbounded) or \<^verbatim>\<open>float\<close>. The distinction
  is observable (\<^verbatim>\<open>isinstance(res[sensor_id], int)\<close> selects the rounding precision),
  so a number carries its dynamic type. A float is idealised as the rational it denotes:
  arithmetic on floats is exact here, the rounding error of IEEE doubles is not modelled.
\<close>

datatype pynum = PInt int | PFloat rat

fun val :: "pynum \<Rightarrow> rat" where
  "val (PInt i) = of_int i"
| "val (PFloat q) = q"

fun is_int :: "pynum \<Rightarrow> bool" where
  "is_int (PInt i) = True"
| "is_int (PFloat q) = False"

text \<open>\<^verbatim>\<open>a + b\<close>, \<^verbatim>\<open>a - b\<close>, \<^verbatim>\<open>a * b\<close>: an int only when both operands are ints.\<close>

definition py_add :: "pynum \<Rightarrow> pynum \<Rightarrow> pynum" where
  "py_add a b =
     (case (a, b) of (PInt x, PInt y) \<Rightarrow> PInt (x + y) | _ \<Rightarrow> PFloat (val a + val b))"

definition py_sub :: "pynum \<Rightarrow> pynum \<Rightarrow> pynum" where
  "py_sub a b =
     (case (a, b) of (PInt x, PInt y) \<Rightarrow> PInt (x - y) | _ \<Rightarrow> PFloat (val a - val b))"

definition py_mul :: "pynum \<Rightarrow> pynum \<Rightarrow> pynum" where
  "py_mul a b =
     (case (a, b) of (PInt x, PInt y) \<Rightarrow> PInt (x * y) | _ \<Rightarrow> PFloat (val a * val b))"

text \<open>\<^verbatim>\<open>max(a, b)\<close> returns the first argument unless the second is strictly greater.\<close>

definition py_max :: "pynum \<Rightarrow> pynum \<Rightarrow> pynum" where
  "py_max a b = (if val a < val b then b else a)"

text \<open>\<^verbatim>\<open>int(x)\<close> on a float truncates toward zero.\<close>

definition py_int :: "rat \<Rightarrow> int" where
  "py_int q = (if 0 \<le> q then \<lfloor>q\<rfloor> else \<lceil>q\<rceil>)"

text \<open>\<^verbatim>\<open>round(x, ndigits)\<close> on a float: to the nearest multiple of \<open>10^-ndigits\<close>, a tie
  going to the even one.\<close>

definition round_half_even :: "rat \<Rightarrow> int" where
  "round_half_even q =
     (let f = \<lfloor>q\<rfloor>; d = q - of_int f
      in if d < 1 / 2 then f else if 1 / 2 < d then f + 1 else if even f then f else f + 1)"

definition py_round :: "rat \<Rightarrow> nat \<Rightarrow> rat" where
  "py_round q ndigits = of_int (round_half_even (q * 10 ^ ndigits)) / 10 ^ ndigits"

text \<open>Exceptions. A \<^verbatim>\<open>KeyError\<close> records the dictionary whose lookup failed.\<close>

datatype lookup = In_response | In_device | In_devices | In_sensors | In_sensors_raw
  | In_res | In_units

datatype error = KeyError lookup | ValueError | ZeroDivisionError | JSONDecodeError

section \<open>Constants of \<^verbatim>\<open>const.py\<close> and units of measurement\<close>

text \<open>
  The three unit strings the controller compares against come from
  \<^verbatim>\<open>homeassistant.const\<close>; \<open>Other_unit\<close> is any other string and \<open>No_unit\<close> is
  \<^verbatim>\<open>None\<close>.
\<close>

datatype unit_of_measurement =
    CONCENTRATION_PARTS_PER_BILLION
  | CONCENTRATION_MILLIGRAMS_PER_CUBIC_METER
  | CONCENTRATION_PARTS_PER_MILLION
  | Other_unit string
  | No_unit

text \<open>
  \<^verbatim>\<open>const.py\<close> is not part of the sources at hand, so its tables and constants are
  parameters: the two sensor tables map a sensor id to the unit in \<^verbatim>\<open>data[1]\<close>, the two
  time deltas are given by their \<^verbatim>\<open>total_seconds()\<close>.
\<close>

record const =
  SENSORS :: "(int \<times> unit_of_measurement) list"
  BINARY_SENSORS :: "(int \<times> unit_of_measurement) list"
  UPDATE_MIN_INTERVAL :: rat
  SENSORS_FILTER_FRAME :: rat
  MWEIGTH_TVOC :: rat
  MWEIGTH_HCHO :: rat

section \<open>Account state\<close>

text \<open>
  A sample set is the dict \<^verbatim>\<open>res\<close> built by one fetch, a history the dict
  \<^verbatim>\<open>self._sensors[device_id]\<close> from timestamp to sample set. Python dicts iterate in
  insertion order, so both are association lists in insertion order; a dict has no key
  twice, and storing under a key that is there keeps its place (\<open>AList.update\<close>).
\<close>

type_synonym sample_set = "(int \<times> pynum) list"
type_synonym history = "(int \<times> sample_set) list"

text \<open>One entry of \<^verbatim>\<open>deviceInfoBodyList\<close>; \<open>stamp\<close> is the value stored under the key
  \<^verbatim>\<open>""\<close> by \<^verbatim>\<open>update_devices\<close>.\<close>

record device =
  deviceid :: "string option"
  pt_name :: string
  deviceToken :: "string option"
  stamp :: "int option"

datatype query_type = QUERY_TYPE_API | QUERY_TYPE_DEVICE

text \<open>
  \<open>sent\<close> stands for \<^verbatim>\<open>self._session\<close>: the requests issued so far, oldest first, each
  with its query type and function name. Fields the modelled methods never read
  (\<^verbatim>\<open>hass\<close>, the credentials, \<^verbatim>\<open>_available\<close>, \<^verbatim>\<open>_sensors_last_update\<close>) are left out.
\<close>

record JqAccount =
  uid :: int
  safeToken :: string
  receive_tvoc_in_ppb :: bool
  receive_hcho_in_ppb :: bool
  active_devices :: "string list"
  devices :: "(string \<times> device) list"
  sensors :: "string \<rightharpoonup> history"
  sensors_raw :: "string \<rightharpoonup> sample_set"
  units :: "int \<rightharpoonup> unit_of_measurement"
  sent :: "(query_type \<times> string) list"

section \<open>\<^verbatim>\<open>get_sensors\<close>\<close>

text \<open>\<^verbatim>\<open>d.setdefault(k, v)\<close> on an insertion-ordered dict.\<close>

definition setdefault :: "'k \<Rightarrow> 'v \<Rightarrow> ('k \<times> 'v) list \<Rightarrow> ('k \<times> 'v) list" where
  "setdefault k v d = (if map_of d k = None then d @ [(k, v)] else d)"

text \<open>
  Lines 529-532: \<^verbatim>\<open>max(list(filter(lambda x: x <= ts_overdue, keys)) or {ts_overdue})\<close>.
\<close>

definition ts_min_of :: "pynum \<Rightarrow> history \<Rightarrow> pynum" where
  "ts_min_of ts_overdue h =
     (case filter (\<lambda>x. of_int x \<le> val ts_overdue) (map fst h) of
        [] \<Rightarrow> ts_overdue
      | x # xs \<Rightarrow> PInt (fold max xs x))"

text \<open>Lines 534-536: the entries with \<^verbatim>\<open>m_ts >= ts_min\<close>, copied to a new dict in the order
  of the old one.\<close>

definition filter_historic :: "pynum \<Rightarrow> history \<Rightarrow> history" where
  "filter_historic ts_overdue h =
     (let ts_min = ts_min_of ts_overdue h
      in filter (\<lambda>(m_ts, v). val ts_min \<le> of_int m_ts) h)"

text \<open>Lines 546-548: \<^verbatim>\<open>res\<close> and \<^verbatim>\<open>last_data\<close> get a zero for every id of the raw
  snapshot.\<close>

definition zero_values :: "sample_set \<Rightarrow> sample_set" where
  "zero_values raw = fold (\<lambda>sensor_id d. setdefault sensor_id (PInt 0) d) (map fst raw) []"

text \<open>Lines 554-555 and 562-563:
  \<^verbatim>\<open>for sensor_id, val in last_data.items(): res[sensor_id] += val * val_t\<close>.\<close>

fun add_values :: "sample_set \<Rightarrow> pynum \<Rightarrow> sample_set \<Rightarrow> error + sample_set" where
  "add_values [] val_t res = Inr res"
| "add_values ((sensor_id, v) # rest) val_t res =
     (case map_of res sensor_id of
        None \<Rightarrow> Inl (KeyError In_res)
      | Some acc \<Rightarrow>
          add_values rest val_t (AList.update sensor_id (py_add acc (py_mul v val_t)) res))"

text \<open>Lines 550-557, the loop over the history; it returns \<^verbatim>\<open>last_ts\<close>,
  \<^verbatim>\<open>last_data\<close> and \<^verbatim>\<open>res\<close>.\<close>

fun sum_values ::
  "pynum \<Rightarrow> history \<Rightarrow> pynum \<Rightarrow> sample_set \<Rightarrow> sample_set
     \<Rightarrow> error + (pynum \<times> sample_set \<times> sample_set)" where
  "sum_values ts_overdue [] last_ts last_data res = Inr (last_ts, last_data, res)"
| "sum_values ts_overdue ((m_ts, data) # rest) last_ts last_data res =
     (let val_t = py_sub (PInt m_ts) last_ts
      in case (if 0 < val val_t then add_values last_data val_t res else Inr res) of
           Inl e \<Rightarrow> Inl e
         | Inr res' \<Rightarrow> sum_values ts_overdue rest (py_max (PInt m_ts) ts_overdue) data res')"

text \<open>Lines 543-563: the accumulated sums, before averaging.\<close>

definition accumulate ::
  "int \<Rightarrow> pynum \<Rightarrow> sample_set \<Rightarrow> history \<Rightarrow> error + sample_set" where
  "accumulate ts_now ts_overdue raw h =
     (case sum_values ts_overdue h ts_overdue (zero_values raw) (zero_values raw) of
        Inl e \<Rightarrow> Inl e
      | Inr (last_ts, last_data, res) \<Rightarrow>
          add_values last_data (py_add (py_sub (PInt ts_now) last_ts) (PInt 1)) res)"

text \<open>Lines 565-567:
  \<^verbatim>\<open>max(1, ts_now - max(min(keys), ts_overdue) + 1)\<close>; \<^verbatim>\<open>min\<close> of no keys raises.\<close>

definition window_length :: "int \<Rightarrow> pynum \<Rightarrow> history \<Rightarrow> error + pynum" where
  "window_length ts_now ts_overdue h =
     (case map fst h of
        [] \<Rightarrow> Inl ValueError
      | k # ks \<Rightarrow>
          Inr (py_max (PInt 1)
                (py_add (py_sub (PInt ts_now) (py_max (PInt (fold min ks k)) ts_overdue))
                   (PInt 1))))"

text \<open>Lines 570-579, the value stored for one sensor id.\<close>

definition average_value ::
  "(int \<rightharpoonup> unit_of_measurement) \<Rightarrow> sample_set \<Rightarrow> pynum \<Rightarrow> int \<Rightarrow> pynum \<Rightarrow> error + pynum" where
  "average_value us raw len sensor_id acc =
     (if sensor_id = 1 then
        (case map_of raw 1 of None \<Rightarrow> Inl (KeyError In_sensors_raw) | Some v \<Rightarrow> Inr v)
      else
        (case us sensor_id of
           None \<Rightarrow> Inl (KeyError In_units)
         | Some u \<Rightarrow>
             if u = CONCENTRATION_PARTS_PER_MILLION \<or> u = CONCENTRATION_PARTS_PER_BILLION
             then Inr (PInt (py_int (val acc / val len)))
             else Inr (PFloat (py_round (val acc / val len) (if is_int acc then 1 else 3)))))"

text \<open>Lines 569-579: \<^verbatim>\<open>for sensor_id in res: res[sensor_id] = ...\<close>.\<close>

fun average_and_round ::
  "(int \<rightharpoonup> unit_of_measurement) \<Rightarrow> sample_set \<Rightarrow> pynum \<Rightarrow> sample_set \<Rightarrow> error + sample_set" where
  "average_and_round us raw len [] = Inr []"
| "average_and_round us raw len ((sensor_id, acc) # rest) =
     (case average_value us raw len sensor_id acc of
        Inl e \<Rightarrow> Inl e
      | Inr v \<Rightarrow>
          (case average_and_round us raw len rest of
             Inl e \<Rightarrow> Inl e
           | Inr r \<Rightarrow> Inr ((sensor_id, v) # r)))"

text \<open>
  \<^verbatim>\<open>get_sensors(device_id)\<close>, with the reading \<open>ts_now\<close> of the clock as an argument. The
  result is the returned dict (\<open>None\<close> for \<^verbatim>\<open>None\<close>) or the exception raised, together
  with the account as the call leaves it.
\<close>

definition get_sensors ::
  "const \<Rightarrow> int \<Rightarrow> string \<Rightarrow> JqAccount \<Rightarrow> (error + sample_set option) \<times> JqAccount" where
  "get_sensors C ts_now device_id s =
     (let ts_overdue = PFloat (of_int ts_now - SENSORS_FILTER_FRAME C);
          h = (case sensors s device_id of None \<Rightarrow> [] | Some h \<Rightarrow> h);
          res = filter_historic ts_overdue h;
          s' = s\<lparr>sensors := (sensors s)(device_id \<mapsto> res)\<rparr>
      in if res = [] then (Inr None, s')
         else
           (case sensors_raw s' device_id of
              None \<Rightarrow> (Inl (KeyError In_sensors_raw), s')
            | Some raw \<Rightarrow>
                (case accumulate ts_now ts_overdue raw res of
                   Inl e \<Rightarrow> (Inl e, s')
                 | Inr totals \<Rightarrow>
                     (case window_length ts_now ts_overdue res of
                        Inl e \<Rightarrow> (Inl e, s')
                      | Inr len \<Rightarrow>
                          (case average_and_round (units s') raw len totals of
                             Inl e \<Rightarrow> (Inl e, s')
                           | Inr r \<Rightarrow> (Inr (Some r), s'))))))"

section \<open>The cloud\<close>

text \<open>
  What \<^verbatim>\<open>self._session.get\<close> gives back: it raises, or it returns a status code and a
  body, which \<^verbatim>\<open>json.loads\<close> (after the \<^verbatim>\<open>jsoncallback(...)\<close> envelope is stripped)
  parses or not. Of a parsed body only the keys the controller reads are kept; a key that
  is absent is \<open>None\<close>.
\<close>

datatype json_content = JNull | JNumber rat | JUnparsable

record sensor_value =
  seq :: int
  content :: json_content

record response =
  code :: "int option"
  returnCode :: "int option"
  r_uid :: "int option"
  r_safeToken :: "string option"
  deviceInfoBodyList :: "device list option"
  deviceValueVos :: "sensor_value list option"

datatype body = Malformed | Json response

datatype http_outcome = Raised | Returned int body

text \<open>
  The outside world: \<open>reply W n\<close> is the outcome of the request issued after \<open>n\<close> earlier
  ones, whatever the request is, and \<open>now_ms W n\<close> is what
  \<^verbatim>\<open>int(dt_util.now().timestamp() * 1000)\<close> reads once \<open>n\<close> requests have been issued.
\<close>

record world =
  reply :: "nat \<Rightarrow> http_outcome"
  now_ms :: "nat \<Rightarrow> int"

section \<open>\<^verbatim>\<open>_query\<close>, \<^verbatim>\<open>is_connected\<close> and \<^verbatim>\<open>connect\<close>\<close>

definition query ::
  "world \<Rightarrow> query_type \<Rightarrow> string \<Rightarrow> JqAccount \<Rightarrow> (error + response option) \<times> JqAccount" where
  "query W qt function s =
     (let s' = s\<lparr>sent := sent s @ [(qt, function)]\<rparr>
      in case reply W (length (sent s)) of
           Raised \<Rightarrow> (Inr None, s')
         | Returned status_code b \<Rightarrow>
             if status_code \<noteq> 200 \<and> status_code \<noteq> 204 then (Inr None, s')
             else
               (case b of
                  Malformed \<Rightarrow> (Inl JSONDecodeError, s')
                | Json resp \<Rightarrow>
                    (case qt of
                       QUERY_TYPE_API \<Rightarrow>
                         (case code resp of
                            None \<Rightarrow> (Inl (KeyError In_response), s')
                          | Some c \<Rightarrow>
                              if c = 102 then (Inr None, s')
                              else if c = 9999 then (Inr None, s')
                              else if c \<noteq> 2000 then (Inr None, s')
                              else (Inr (Some resp), s'))
                     | QUERY_TYPE_DEVICE \<Rightarrow>
                         (case returnCode resp of
                            None \<Rightarrow> (Inl (KeyError In_response), s')
                          | Some rc \<Rightarrow>
                              if rc \<noteq> 0 then (Inr None, s'\<lparr>uid := - 1000\<rparr>)
                              else (Inr (Some resp), s')))))"

definition is_connected :: "JqAccount \<Rightarrow> bool" where
  "is_connected s = (0 < uid s)"

function connect :: "world \<Rightarrow> bool \<Rightarrow> JqAccount \<Rightarrow> (error + bool) \<times> JqAccount" where
  "connect W force s =
     (if \<not> force \<and> 0 < uid s then (Inr True, s)
      else
        (case query W QUERY_TYPE_API ''loginByEmail''
                (s\<lparr>uid := - 1000, safeToken := ''anonymous''\<rparr>) of
           (Inl e, s1) \<Rightarrow> (Inl e, s1)
         | (Inr None, s1) \<Rightarrow> if \<not> force then connect W True s1 else (Inr False, s1)
         | (Inr (Some ret), s1) \<Rightarrow>
             (case r_uid ret of
                None \<Rightarrow> (Inl (KeyError In_response), s1)
              | Some u \<Rightarrow>
                  (case r_safeToken ret of
                     None \<Rightarrow> (Inl (KeyError In_response), s1\<lparr>uid := u\<rparr>)
                   | Some t \<Rightarrow> (Inr True, s1\<lparr>uid := u, safeToken := t, devices := []\<rparr>)))))"
  by pat_completeness auto
termination
  by (relation "measure (\<lambda>(W, force, s). if force then 0 else 1)") auto

declare connect.simps [simp del]

section \<open>\<^verbatim>\<open>update_devices\<close>\<close>

text \<open>Lines 388-390: each device of the list is stamped and stored under its id.\<close>

fun store_devices ::
  "int \<Rightarrow> device list \<Rightarrow> (string \<times> device) list \<Rightarrow> error option \<times> (string \<times> device) list" where
  "store_devices tstamp [] ds = (None, ds)"
| "store_devices tstamp (dev # rest) ds =
     (case deviceid dev of
        None \<Rightarrow> (Some (KeyError In_device), ds)
      | Some i \<Rightarrow> store_devices tstamp rest (AList.update i (dev\<lparr>stamp := Some tstamp\<rparr>) ds))"

text \<open>Lines 392-393 (and 361-362):
  \<^verbatim>\<open>for device_id in ...: self._sensors.setdefault(device_id, {})\<close>.\<close>

definition ensure_histories :: "string list \<Rightarrow> (string \<rightharpoonup> history) \<Rightarrow> (string \<rightharpoonup> history)" where
  "ensure_histories ids m = fold (\<lambda>device_id m. if m device_id = None then m(device_id \<mapsto> []) else m) ids m"

function update_devices ::
  "world \<Rightarrow> bool \<Rightarrow> JqAccount \<Rightarrow> (error + (string \<times> device) list option) \<times> JqAccount" where
  "update_devices W force s =
     (case connect W False s of
        (Inl e, s1) \<Rightarrow> (Inl e, s1)
      | (Inr False, s1) \<Rightarrow> (Inr None, s1)
      | (Inr True, s1) \<Rightarrow>
          if \<not> force \<and> devices s1 \<noteq> [] then (Inr (Some (devices s1)), s1)
          else
            (case query W QUERY_TYPE_API ''deviceManager'' s1 of
               (Inl e, s2) \<Rightarrow> (Inl e, s2)
             | (Inr None, s2) \<Rightarrow> if \<not> force then update_devices W True s2 else (Inr None, s2)
             | (Inr (Some ret), s2) \<Rightarrow>
                 (case deviceInfoBodyList ret of
                    None \<Rightarrow> (Inl (KeyError In_response), s2)
                  | Some devs \<Rightarrow>
                      (case store_devices (now_ms W (length (sent s2))) devs (devices s2) of
                         (Some e, ds) \<Rightarrow> (Inl e, s2\<lparr>devices := ds\<rparr>)
                       | (None, ds) \<Rightarrow>
                           (Inr (Some ds),
                            s2\<lparr>devices := ds,
                               sensors := ensure_histories (map fst ds) (sensors s2)\<rparr>)))))"
  by pat_completeness auto
termination
  by (relation "measure (\<lambda>(W, force, s). if force then 0 else 1)") auto

declare update_devices.simps [simp del]

section \<open>\<^verbatim>\<open>_fetch_sensors\<close> and \<^verbatim>\<open>update_sensors\<close>\<close>

text \<open>
  Lines 459-465, the value stored for one sensor whose content \<^verbatim>\<open>float\<close> has read as
  \<open>q\<close>. The factor \<^verbatim>\<open>1000 * 24.45 / MWEIGTH\<close> is computed first, then multiplied in.
\<close>

definition sensor_reading :: "const \<Rightarrow> JqAccount \<Rightarrow> int \<Rightarrow> rat \<Rightarrow> error + pynum" where
  "sensor_reading C s sensor_id q =
     (case (if sensor_id = 8 \<and> receive_tvoc_in_ppb s then
              (if MWEIGTH_TVOC C = 0 then Inl ZeroDivisionError
               else Inr (q * (1000 * (2445 / 100) / MWEIGTH_TVOC C)))
            else if sensor_id = 7 \<and> receive_hcho_in_ppb s then
              (if MWEIGTH_HCHO C = 0 then Inl ZeroDivisionError
               else Inr (q * (1000 * (2445 / 100) / MWEIGTH_HCHO C)))
            else Inr q) of
        Inl e \<Rightarrow> Inl e
      | Inr x \<Rightarrow>
          (case units s sensor_id of
             None \<Rightarrow> Inl (KeyError In_units)
           | Some u \<Rightarrow>
               if u \<noteq> CONCENTRATION_MILLIGRAMS_PER_CUBIC_METER then Inr (PInt (py_int x))
               else Inr (PFloat x)))"

text \<open>Lines 450-465, the loop over \<^verbatim>\<open>ret["deviceValueVos"]\<close>.\<close>

fun read_values ::
  "const \<Rightarrow> JqAccount \<Rightarrow> sensor_value list \<Rightarrow> sample_set \<Rightarrow> error + sample_set" where
  "read_values C s [] res = Inr res"
| "read_values C s (sensor # rest) res =
     (if content sensor = JNull
         \<or> (seq sensor \<notin> set (map fst (SENSORS C))
            \<and> seq sensor \<notin> set (map fst (BINARY_SENSORS C)))
      then read_values C s rest res
      else
        (case content sensor of
           JNull \<Rightarrow> read_values C s rest res
         | JUnparsable \<Rightarrow> Inl ValueError
         | JNumber q \<Rightarrow>
             (case sensor_reading C s (seq sensor) q of
                Inl e \<Rightarrow> Inl e
              | Inr v \<Rightarrow> read_values C s rest (AList.update (seq sensor) v res))))"

function fetch_sensors ::
  "const \<Rightarrow> world \<Rightarrow> string \<Rightarrow> int \<Rightarrow> bool \<Rightarrow> JqAccount \<Rightarrow> (error + bool) \<times> JqAccount" where
  "fetch_sensors C W device_id ts_now force s =
     (case update_devices W False s of
        (Inl e, s1) \<Rightarrow> (Inl e, s1)
      | (Inr None, s1) \<Rightarrow> (Inr False, s1)
      | (Inr (Some devs), s1) \<Rightarrow>
          if devs = [] then (Inr False, s1)
          else
            (case map_of devs device_id of
               None \<Rightarrow> (Inl (KeyError In_devices), s1)
             | Some dev \<Rightarrow>
                 (case deviceToken dev of
                    None \<Rightarrow> (Inl (KeyError In_device), s1)
                  | Some token \<Rightarrow>
                      (case query W QUERY_TYPE_DEVICE ''list'' s1 of
                         (Inl e, s2) \<Rightarrow> (Inl e, s2)
                       | (Inr None, s2) \<Rightarrow>
                           if \<not> force then fetch_sensors C W device_id ts_now True s2
                           else (Inr False, s2)
                       | (Inr (Some ret), s2) \<Rightarrow>
                           (case deviceValueVos ret of
                              None \<Rightarrow> (Inl (KeyError In_response), s2)
                            | Some vos \<Rightarrow>
                                (case read_values C s2 vos [] of
                                   Inl e \<Rightarrow> (Inl e, s2)
                                 | Inr res \<Rightarrow>
                                     (case sensors s2 device_id of
                                        None \<Rightarrow> (Inl (KeyError In_sensors), s2)
                                      | Some h \<Rightarrow>
                                          (Inr True,
                                           s2\<lparr>sensors := (sensors s2)
                                                 (device_id \<mapsto> AList.update ts_now res h),
                                              sensors_raw := (sensors_raw s2)
                                                 (device_id \<mapsto> res)\<rparr>))))))))"
  by pat_completeness auto
termination
  by (relation "measure (\<lambda>(C, W, device_id, ts_now, force, s). if force then 0 else 1)") auto

declare fetch_sensors.simps [simp del]

text \<open>Lines 478-484, the loop over \<^verbatim>\<open>self.active_devices\<close>; the result of
  \<^verbatim>\<open>_fetch_sensors\<close> is dropped, an exception is not.\<close>

fun update_sensors_loop ::
  "const \<Rightarrow> world \<Rightarrow> int \<Rightarrow> string list \<Rightarrow> JqAccount \<Rightarrow> (error + unit) \<times> JqAccount" where
  "update_sensors_loop C W ts_now [] s = (Inr (), s)"
| "update_sensors_loop C W ts_now (device_id # rest) s =
     (case sensors s device_id of
        None \<Rightarrow> (Inl (KeyError In_sensors), s)
      | Some h \<Rightarrow>
          if (case map fst h of
                [] \<Rightarrow> True
              | k # ks \<Rightarrow> of_int (fold max ks k) < of_int ts_now - UPDATE_MIN_INTERVAL C)
          then
            (case fetch_sensors C W device_id ts_now False s of
               (Inl e, s1) \<Rightarrow> (Inl e, s1)
             | (Inr fetched, s1) \<Rightarrow> update_sensors_loop C W ts_now rest s1)
          else update_sensors_loop C W ts_now rest s)"

definition update_sensors ::
  "const \<Rightarrow> world \<Rightarrow> int \<Rightarrow> JqAccount \<Rightarrow> (error + unit) \<times> JqAccount" where
  "update_sensors C W ts_now s = update_sensors_loop C W ts_now (active_devices s) s"

section \<open>\<^verbatim>\<open>__init__\<close> and the \<^verbatim>\<open>active_devices\<close> setter\<close>

text \<open>Lines 188-196: the units of the binary sensors first, then those of the sensors.\<close>

definition init_units :: "const \<Rightarrow> bool \<Rightarrow> bool \<Rightarrow> (int \<rightharpoonup> unit_of_measurement)" where
  "init_units C tvoc_in_ppb hcho_in_ppb =
     fold (\<lambda>(sensor_id, u) m.
             if (tvoc_in_ppb \<and> sensor_id = 8) \<or> (hcho_in_ppb \<and> sensor_id = 7)
             then m(sensor_id \<mapsto> CONCENTRATION_PARTS_PER_BILLION)
             else m(sensor_id \<mapsto> u))
          (SENSORS C)
          (fold (\<lambda>(sensor_id, u) m. m(sensor_id \<mapsto> u)) (BINARY_SENSORS C) Map.empty)"

definition init :: "const \<Rightarrow> bool \<Rightarrow> bool \<Rightarrow> JqAccount" where
  "init C tvoc_in_ppb hcho_in_ppb =
     \<lparr>uid = - 1000, safeToken = ''anonymous'',
      receive_tvoc_in_ppb = tvoc_in_ppb, receive_hcho_in_ppb = hcho_in_ppb,
      active_devices = [], devices = [], sensors = Map.empty, sensors_raw = Map.empty,
      units = init_units C tvoc_in_ppb hcho_in_ppb, sent = []\<rparr>"

definition set_active_devices :: "string list \<Rightarrow> JqAccount \<Rightarrow> JqAccount" where
  "set_active_devices devs s =
     s\<lparr>active_devices := devs, sensors := ensure_histories devs (sensors s)\<rparr>"

section \<open>An example configuration\<close>

text \<open>A configuration in the shape of \<^verbatim>\<open>const.py\<close>, used to run the controller on
  concrete inputs.\<close>

definition const_example :: const where
  "const_example =
     \<lparr>SENSORS = [(4, Other_unit ''C''), (5, Other_unit ''%''), (6, Other_unit ''ug/m3''),
                 (7, CONCENTRATION_MILLIGRAMS_PER_CUBIC_METER),
                 (8, CONCENTRATION_MILLIGRAMS_PER_CUBIC_METER),
                 (9, CONCENTRATION_PARTS_PER_MILLION)],
      BINARY_SENSORS = [(1, No_unit)],
      UPDATE_MIN_INTERVAL = 10,
      SENSORS_FILTER_FRAME = 25,
      MWEIGTH_TVOC = 56106 / 1000,
      MWEIGTH_HCHO = 30026 / 1000\<rparr>"

section \<open>The average as the specification words it\<close>






section \<open>Example accounts\<close>


section \<open>The login query and example clouds\<close>

text \<open>The login query of lines 331-342: the session is reset, then \<^verbatim>\<open>loginByEmail\<close> is
  queried on the account surface.\<close>

definition login :: "world \<Rightarrow> JqAccount \<Rightarrow> (error + response option) \<times> JqAccount" where
  "login W s =
     query W QUERY_TYPE_API ''loginByEmail'' (s\<lparr>uid := - 1000, safeToken := ''anonymous''\<rparr>)"

text \<open>A cloud that is down: every request raises.\<close>

definition world_down :: world where
  "world_down = \<lparr>reply = (\<lambda>n. Raised), now_ms = (\<lambda>n. 0)\<rparr>"

text \<open>A cloud that rejects every request: login failure on the account surface, a non-zero
  \<^verbatim>\<open>returnCode\<close> on the device surface.\<close>

definition world_rejecting :: world where
  "world_rejecting =
     \<lparr>reply = (\<lambda>n. Returned 200
                 (Json \<lparr>code = Some 102, returnCode = Some 1, r_uid = None, r_safeToken = None,
                        deviceInfoBodyList = None, deviceValueVos = None\<rparr>)),
      now_ms = (\<lambda>n. 0)\<rparr>"

text \<open>Two devices, and a cloud that accepts every request and lists the second device
  only.\<close>

definition device_old :: device where
  "device_old = \<lparr>deviceid = Some ''old'', pt_name = ''Hall'', deviceToken = Some ''t0'',
                 stamp = Some 1\<rparr>"

definition device_new :: device where
  "device_new = \<lparr>deviceid = Some ''new'', pt_name = ''Kitchen'', deviceToken = Some ''t1'',
                 stamp = None\<rparr>"

definition world_accepting :: world where
  "world_accepting =
     \<lparr>reply = (\<lambda>n. Returned 200
                 (Json \<lparr>code = Some 2000, returnCode = Some 0, r_uid = Some 7,
                        r_safeToken = Some ''token'',
                        deviceInfoBodyList = Some [device_new],
                        deviceValueVos = Some [\<lparr>seq = 4, content = JNumber 21\<rparr>]\<rparr>)),
      now_ms = (\<lambda>n. 1000 + int n)\<rparr>"

text \<open>A connected account with the first device cached.\<close>

definition account_connected :: JqAccount where
  "account_connected =
     (init const_example False False)\<lparr>uid := 7, devices := [(''old'', device_old)]\<rparr>"







section \<open>Reachable accounts\<close>

text \<open>
  The accounts the controller can be in: a fresh one, and what any of its methods leaves,
  whatever the cloud \<open>W\<close> replies. \<^verbatim>\<open>async_setup\<close> also appends to the list of active
  devices in place (line 123).
\<close>

inductive reachable :: "const \<Rightarrow> world \<Rightarrow> JqAccount \<Rightarrow> bool" for C :: const and W :: world where
  reach_init: "reachable C W (init C tvoc_in_ppb hcho_in_ppb)"
| reach_connect: "reachable C W s \<Longrightarrow> reachable C W (snd (connect W force s))"
| reach_update_devices: "reachable C W s \<Longrightarrow> reachable C W (snd (update_devices W force s))"
| reach_fetch_sensors:
    "reachable C W s \<Longrightarrow> reachable C W (snd (fetch_sensors C W device_id ts_now force s))"
| reach_update_sensors: "reachable C W s \<Longrightarrow> reachable C W (snd (update_sensors C W ts_now s))"
| reach_get_sensors: "reachable C W s \<Longrightarrow> reachable C W (snd (get_sensors C ts_now device_id s))"
| reach_set_active_devices: "reachable C W s \<Longrightarrow> reachable C W (set_active_devices devs s)"
| reach_append_active_device:
    "reachable C W s \<Longrightarrow> reachable C W (s\<lparr>active_devices := active_devices s @ [device_id]\<rparr>)"

text \<open>The accounts reached without a direct call of \<^verbatim>\<open>_fetch_sensors\<close>: samples are stored by
  \<^verbatim>\<open>update_sensors\<close> only, as \<^verbatim>\<open>async_setup\<close> and the poll scheduler do.\<close>

inductive polled :: "const \<Rightarrow> world \<Rightarrow> JqAccount \<Rightarrow> bool" for C :: const and W :: world where
  polled_init: "polled C W (init C tvoc_in_ppb hcho_in_ppb)"
| polled_connect: "polled C W s \<Longrightarrow> polled C W (snd (connect W force s))"
| polled_update_devices: "polled C W s \<Longrightarrow> polled C W (snd (update_devices W force s))"
| polled_update_sensors: "polled C W s \<Longrightarrow> polled C W (snd (update_sensors C W ts_now s))"
| polled_get_sensors: "polled C W s \<Longrightarrow> polled C W (snd (get_sensors C ts_now device_id s))"
| polled_set_active_devices: "polled C W s \<Longrightarrow> polled C W (set_active_devices devs s)"
| polled_append_active_device:
    "polled C W s \<Longrightarrow> polled C W (s\<lparr>active_devices := active_devices s @ [device_id]\<rparr>)"


text \<open>The invariant: a device with a non-empty history has a raw snapshot.\<close>

definition raw_covers :: "JqAccount \<Rightarrow> bool" where
  "raw_covers s \<longleftrightarrow> (\<forall>d h. sensors s d = Some h \<and> h \<noteq> [] \<longrightarrow> sensors_raw s d \<noteq> None)"

text \<open>\<open>sample_ok C res\<close>: the sample set is a dict (no key twice) over sensor ids of the two
  sensor tables.\<close>

definition sample_ok :: "const \<Rightarrow> sample_set \<Rightarrow> bool" where
  "sample_ok C res \<longleftrightarrow>
     distinct (map fst res)
     \<and> set (map fst res) \<subseteq> set (map fst (SENSORS C)) \<union> set (map fst (BINARY_SENSORS C))"


text \<open>\<open>grows s s'\<close>: from \<open>s\<close> to \<open>s'\<close> the raw snapshots, the units and the two flags are the
  same and the history map
  has at most got empty histories for devices that had none.\<close>

definition grows :: "JqAccount \<Rightarrow> JqAccount \<Rightarrow> bool" where
  "grows s s' \<longleftrightarrow>
     sensors_raw s' = sensors_raw s
     \<and> units s' = units s
     \<and> receive_tvoc_in_ppb s' = receive_tvoc_in_ppb s
     \<and> receive_hcho_in_ppb s' = receive_hcho_in_ppb s
     \<and> (\<forall>d. sensors s' d = sensors s d \<or> (sensors s d = None \<and> sensors s' d = Some []))"

text \<open>\<open>stored C d ts s s'\<close>: from \<open>s\<close> to \<open>s'\<close> one sample set was stored for device \<open>d\<close>, in
  its history at \<open>ts\<close> and as its raw snapshot (lines 467-468).\<close>

definition stored :: "const \<Rightarrow> string \<Rightarrow> int \<Rightarrow> JqAccount \<Rightarrow> JqAccount \<Rightarrow> bool" where
  "stored C d ts s s' \<longleftrightarrow>
     (\<exists>s2 res h. grows s s2 \<and> sensors s2 d = Some h \<and> sample_ok C res
        \<and> sensors s' = (sensors s2)(d \<mapsto> AList.update ts res h)
        \<and> sensors_raw s' = (sensors_raw s2)(d \<mapsto> res)
        \<and> units s' = units s2
        \<and> receive_tvoc_in_ppb s' = receive_tvoc_in_ppb s2
        \<and> receive_hcho_in_ppb s' = receive_hcho_in_ppb s2)"


section \<open>Pruning of the history\<close>

lemma ts_min_of_cases:
  "ts_min_of c h =
     (if \<exists>t \<in> set (map fst h). of_int t \<le> val c
      then PInt (Max {t \<in> set (map fst h). of_int t \<le> val c}) else c)"
proof (cases "filter (\<lambda>x. of_int x \<le> val c) (map fst h)")
  case Nil
  then have "\<not> (\<exists>t \<in> set (map fst h). of_int t \<le> val c)"
    by (simp add: filter_empty_conv)
  with Nil show ?thesis by (simp add: ts_min_of_def)
next
  case (Cons x xs)
  then have s: "set (x # xs) = {t \<in> set (map fst h). of_int t \<le> val c}"
    by (metis set_filter)
  have "x \<in> set (x # xs)" by simp
  then have ex: "\<exists>t \<in> set (map fst h). of_int t \<le> val c" unfolding s by blast
  have "fold max xs x = Max (set (x # xs))" by (rule Max.set_eq_fold [symmetric])
  with Cons ex s show ?thesis by (simp add: ts_min_of_def)
qed

lemma filter_historic_Nil: "filter_historic c [] = []"
  by (simp add: filter_historic_def)

lemma filter_historic_idem:
  "filter_historic c (filter_historic c h) = filter_historic c h"
proof (cases "\<exists>t \<in> set (map fst h). of_int t \<le> val c")
  case False
  then have m: "ts_min_of c h = c" by (simp add: ts_min_of_cases)
  have "filter (\<lambda>(m_ts, v). val c \<le> of_int m_ts) h = h"
    using False by (auto simp: filter_id_conv)
  then have "filter_historic c h = h" using m by (simp add: filter_historic_def)
  then show ?thesis by simp
next
  case True
  define K where "K = {t \<in> set (map fst h). of_int t \<le> val c}"
  define m where "m = Max K"
  have fin: "finite K" and ne: "K \<noteq> {}" using True by (auto simp: K_def)
  have mK: "m \<in> K" unfolding m_def using fin ne by (rule Max_in)
  have tm: "ts_min_of c h = PInt m" using True by (simp add: ts_min_of_cases K_def m_def)
  have fh: "filter_historic c h = filter (\<lambda>(t, v). m \<le> t) h"
    by (simp add: filter_historic_def tm)
  define K' where "K' = {t \<in> set (map fst (filter (\<lambda>(t, v). m \<le> t) h)). of_int t \<le> val c}"
  have K'eq: "K' = {t \<in> K. m \<le> t}" unfolding K'_def K_def by force
  have "m \<in> K'" using mK K'eq by simp
  moreover have "\<And>t. t \<in> K' \<Longrightarrow> t \<le> m" using K'eq fin m_def by simp
  moreover have "finite K'" using K'eq fin by simp
  ultimately have "Max K' = m" by (meson Max_eqI)
  moreover have "\<exists>t \<in> set (map fst (filter (\<lambda>(t, v). m \<le> t) h)). of_int t \<le> val c"
    using \<open>m \<in> K'\<close> unfolding K'_def by blast
  ultimately have "ts_min_of c (filter (\<lambda>(t, v). m \<le> t) h) = PInt m"
    by (simp add: ts_min_of_cases K'_def)
  then have "filter_historic c (filter (\<lambda>(t, v). m \<le> t) h) = filter (\<lambda>(t, v). m \<le> t) h"
    by (simp add: filter_historic_def case_prod_unfold)
  then show ?thesis by (simp add: fh)
qed

lemma snd_get_sensors:
  "snd (get_sensors C ts_now d s) =
     s\<lparr>sensors := (sensors s)
          (d \<mapsto> filter_historic (PFloat (of_int ts_now - SENSORS_FILTER_FRAME C))
                 (case sensors s d of None \<Rightarrow> [] | Some h \<Rightarrow> h))\<rparr>"
  by (simp add: get_sensors_def Let_def split: option.splits sum.splits)

text \<open>
  Claim C2. Whatever history is stored for a device (none counts as the empty one),
  \<^verbatim>\<open>get_sensors\<close> leaves exactly the entries whose timestamp is at least the greatest
  stored timestamp at or before the cutoff \<open>ts_now - SENSORS_FILTER_FRAME\<close>, in their
  order and with their sample sets; when no stored timestamp is at or before the cutoff,
  the cutoff is the bound and the history is kept whole.
\<close>

theorem get_sensors_prunes_history:
  assumes "h = (case sensors s d of None \<Rightarrow> [] | Some h \<Rightarrow> h)"
    and "cutoff = of_int ts_now - SENSORS_FILTER_FRAME C"
  shows "sensors (snd (get_sensors C ts_now d s)) d =
           Some (filter
                  (\<lambda>(t, v). (if \<exists>k \<in> set (map fst h). of_int k \<le> cutoff
                              then of_int (Max {k \<in> set (map fst h). of_int k \<le> cutoff})
                              else cutoff) \<le> of_int t) h)
         \<and> ((\<forall>k \<in> set (map fst h). cutoff < of_int k)
              \<longrightarrow> sensors (snd (get_sensors C ts_now d s)) d = Some h)"
proof -
  have p: "sensors (snd (get_sensors C ts_now d s)) d = Some (filter_historic (PFloat cutoff) h)"
    by (simp add: snd_get_sensors assms)
  have f: "filter_historic (PFloat cutoff) h =
      filter (\<lambda>(t, v). (if \<exists>k \<in> set (map fst h). of_int k \<le> cutoff
                              then of_int (Max {k \<in> set (map fst h). of_int k \<le> cutoff})
                              else cutoff) \<le> of_int t) h"
    by (simp add: filter_historic_def ts_min_of_cases if_distrib [of val] cong: if_cong)
  have g: "filter_historic (PFloat cutoff) h = h" if "\<forall>k \<in> set (map fst h). cutoff < of_int k"
  proof -
    from that have "\<not> (\<exists>k \<in> set (map fst h). of_int k \<le> cutoff)" by fastforce
    then have "ts_min_of (PFloat cutoff) h = PFloat cutoff" by (simp add: ts_min_of_cases)
    moreover have "filter (\<lambda>(t, v). cutoff \<le> of_int t) h = h"
      using that by (fastforce simp: filter_id_conv)
    ultimately show ?thesis by (simp add: filter_historic_def)
  qed
  show ?thesis using p f g by simp
qed

theorem get_sensors_prunes_history_witness:
  "[(10, [(4, PInt 21)]), (20, [(4, PInt 22)]), (30, [(4, PInt 23)])] =
     (case sensors ((init const_example False False)
            \<lparr>sensors := [''dev'' \<mapsto> [(10, [(4, PInt 21)]), (20, [(4, PInt 22)]),
                                      (30, [(4, PInt 23)])]]\<rparr>) ''dev'' of
        None \<Rightarrow> [] | Some h \<Rightarrow> h)
   \<and> (22 :: rat) = of_int 47 - SENSORS_FILTER_FRAME const_example
   \<and> sensors (snd (get_sensors const_example 47 ''dev''
        ((init const_example False False)
           \<lparr>sensors := [''dev'' \<mapsto> [(10, [(4, PInt 21)]), (20, [(4, PInt 22)]),
                                     (30, [(4, PInt 23)])]]\<rparr>)))
      ''dev'' = Some [(20, [(4, PInt 22)]), (30, [(4, PInt 23)])]"
proof -
  let ?h = "[(10, [(4, PInt 21)]), (20, [(4, PInt 22)]), (30, [(4, PInt 23 :: pynum)])]"
  let ?s = "(init const_example False False)\<lparr>sensors := [''dev'' \<mapsto> ?h]\<rparr>"
  have h1: "?h = (case sensors ?s ''dev'' of None \<Rightarrow> [] | Some h \<Rightarrow> h)" by simp
  have h2: "(22 :: rat) = of_int 47 - SENSORS_FILTER_FRAME const_example"
    by (simp add: const_example_def)
  have m: "Max {k \<in> set (map fst ?h). rat_of_int k \<le> 22} = 20"
  proof (rule Max_eqI)
    show "finite {k \<in> set (map fst ?h). rat_of_int k \<le> 22}" by simp
    show "20 \<in> {k \<in> set (map fst ?h). rat_of_int k \<le> 22}" by simp
    show "y \<le> 20" if "y \<in> {k \<in> set (map fst ?h). rat_of_int k \<le> 22}" for y
      using that by auto
  qed
  have e: "\<exists>k \<in> set (map fst ?h). rat_of_int k \<le> 22" by simp
  from get_sensors_prunes_history [OF h1 h2]
  have "sensors (snd (get_sensors const_example 47 ''dev'' ?s)) ''dev'' =
          Some (filter (\<lambda>(t, v). rat_of_int 20 \<le> of_int t) ?h)"
    unfolding m if_P [OF e] by (rule conjunct1)
  then show ?thesis using h1 h2 by simp
qed

text \<open>
  Claim C3, as the code has it. For the history \<open>{10: A, 20: B, 30: C}\<close>, the clock at 40
  and a retention window of 25 seconds (cutoff 15), \<^verbatim>\<open>get_sensors\<close> keeps all three
  entries: the entry at 10 is the greatest timestamp at or before the cutoff and stays as
  the carry-in.
\<close>

theorem get_sensors_keeps_carry_in:
  "sensors (snd (get_sensors (C\<lparr>SENSORS_FILTER_FRAME := 25\<rparr>) 40 d
       (s\<lparr>sensors := (sensors s)(d \<mapsto> [(10, A), (20, B), (30, D)])\<rparr>))) d
     = Some [(10, A), (20, B), (30, D)]"
  by (simp add: snd_get_sensors filter_historic_def ts_min_of_def)

text \<open>The claim as stated, that the entry at 10 is dropped, fails on a concrete account.\<close>

theorem get_sensors_drops_10_counterexample:
  "sensors (snd (get_sensors const_example 40 ''dev''
       ((init const_example False False)
          \<lparr>sensors := [''dev'' \<mapsto> [(10, [(4, PInt 21)]), (20, [(4, PInt 22)]),
                                    (30, [(4, PInt 23)])]]\<rparr>))) ''dev''
     \<noteq> Some [(20, [(4, PInt 22)]), (30, [(4, PInt 23)])]"
  by (simp add: snd_get_sensors filter_historic_def ts_min_of_def const_example_def)

section \<open>Reading twice\<close>

text \<open>
  Claim C9. A second call of \<^verbatim>\<open>get_sensors\<close> for the same device at the same clock
  reading, on the account as the first call left it, returns what the first call returned
  (the same dict, \<^verbatim>\<open>None\<close> or exception) and leaves the account as the first call left
  it.
\<close>

theorem get_sensors_twice:
  "fst (get_sensors C ts_now d (snd (get_sensors C ts_now d s))) = fst (get_sensors C ts_now d s)
   \<and> snd (get_sensors C ts_now d (snd (get_sensors C ts_now d s))) = snd (get_sensors C ts_now d s)"
proof -
  have "get_sensors C ts_now d (snd (get_sensors C ts_now d s)) = get_sensors C ts_now d s"
    unfolding snd_get_sensors
    by (simp add: get_sensors_def Let_def filter_historic_idem filter_historic_Nil
        cong: option.case_cong sum.case_cong if_cong)
  then show ?thesis by simp
qed

section \<open>The time-weighted sum\<close>

lemma val_py_add [simp]: "val (py_add a b) = val a + val b"
  by (cases a; cases b) (simp_all add: py_add_def)

lemma val_py_sub [simp]: "val (py_sub a b) = val a - val b"
  by (cases a; cases b) (simp_all add: py_sub_def)

lemma val_py_mul [simp]: "val (py_mul a b) = val a * val b"
  by (cases a; cases b) (simp_all add: py_mul_def)

lemma val_py_max [simp]: "val (py_max a b) = max (val a) (val b)"
  by (simp add: py_max_def max_def)

lemma fold_setdefault_keys:
  "set (map fst (fold (\<lambda>k d. setdefault k v d) ks d)) = set ks \<union> set (map fst d)"
proof (induction ks arbitrary: d)
  case Nil
  show ?case by simp
next
  case (Cons k ks)
  have "set (map fst (setdefault k v d)) = insert k (set (map fst d))"
    by (auto simp: setdefault_def map_of_eq_None_iff)
  with Cons show ?case by auto
qed


lemma zero_values_keys: "set (map fst (zero_values raw)) = set (map fst raw)"
  using fold_setdefault_keys [of "PInt 0" "map fst raw" "[]"] by (simp add: zero_values_def)


lemma add_values_keys:
  "add_values ld vt res = Inr res' \<Longrightarrow> map fst res' = map fst res"
proof (induction ld vt res rule: add_values.induct)
  case (1 vt res)
  then show ?case by simp
next
  case (2 k v rest vt res)
  then show ?case
    by (auto split: option.splits simp: update_keys dest!: map_of_SomeD intro: rev_image_eqI)
qed

lemma add_values_error:
  "add_values ld vt res = Inl e \<Longrightarrow> e = KeyError In_res"
  by (induction ld vt res rule: add_values.induct) (auto split: option.splits)

lemma sum_values_keys:
  "sum_values c h lt ld res = Inr (lt', ld', res') \<Longrightarrow> map fst res' = map fst res"
proof (induction c h lt ld res rule: sum_values.induct)
  case 1
  then show ?case by simp
next
  case (2 c m_ts data rest lt ld res)
  then show ?case
    by (auto simp: Let_def split: if_splits sum.splits dest: add_values_keys)
qed

lemma sum_values_error:
  "sum_values c h lt ld res = Inl e \<Longrightarrow> e = KeyError In_res"
proof (induction c h lt ld res rule: sum_values.induct)
  case 1
  then show ?case by simp
next
  case (2 c m_ts data rest lt ld res)
  then show ?case
    by (auto simp: Let_def split: if_splits sum.splits dest: add_values_error)
qed

lemma accumulate_keys:
  "accumulate ts_now c raw h = Inr totals \<Longrightarrow> set (map fst totals) = set (map fst raw)"
proof -
  assume a: "accumulate ts_now c raw h = Inr totals"
  then obtain lt ld res where
    s: "sum_values c h c (zero_values raw) (zero_values raw) = Inr (lt, ld, res)"
    and t: "add_values ld (py_add (py_sub (PInt ts_now) lt) (PInt 1)) res = Inr totals"
    by (auto simp: accumulate_def split: sum.splits)
  have "map fst totals = map fst (zero_values raw)"
    using sum_values_keys [OF s] add_values_keys [OF t] by simp
  then show ?thesis using zero_values_keys [of raw] by simp
qed

lemma accumulate_error:
  "accumulate ts_now c raw h = Inl e \<Longrightarrow> e = KeyError In_res"
  by (auto simp: accumulate_def split: sum.splits dest: sum_values_error add_values_error)









lemma average_and_round_error:
  "average_and_round us raw len xs = Inl e \<Longrightarrow> set (map fst xs) \<subseteq> set (map fst raw)
     \<Longrightarrow> e = KeyError In_units"
proof (induction xs)
  case Nil
  then show ?case by simp
next
  case (Cons p xs)
  obtain k a where p: "p = (k, a)" by (cases p)
  have "average_value us raw len k a = Inl e' \<Longrightarrow> e' = KeyError In_units" for e'
  proof (cases "k = 1")
    case True
    assume "average_value us raw len k a = Inl e'"
    moreover from True Cons.prems(2) have "map_of raw 1 \<noteq> None"
      by (simp add: p map_of_eq_None_iff)
    ultimately show ?thesis using True by (auto simp: average_value_def)
  next
    case False
    assume "average_value us raw len k a = Inl e'"
    then show ?thesis using False by (auto simp: average_value_def split: option.splits if_splits)
  qed
  with Cons show ?case by (auto simp: p split: sum.splits)
qed



lemma fst_get_sensors:
  assumes "filter_historic (PFloat (of_int now - SENSORS_FILTER_FRAME C))
             (case sensors s d of None \<Rightarrow> [] | Some h \<Rightarrow> h) = pruned"
    and "pruned \<noteq> []" and "sensors_raw s d = Some raw"
  shows "fst (get_sensors C now d s) =
     (case accumulate now (PFloat (of_int now - SENSORS_FILTER_FRAME C)) raw pruned of
        Inl e \<Rightarrow> Inl e
      | Inr totals \<Rightarrow>
          (case window_length now (PFloat (of_int now - SENSORS_FILTER_FRAME C)) pruned of
             Inl e \<Rightarrow> Inl e
           | Inr len \<Rightarrow>
               (case average_and_round (units s) raw len totals of
                  Inl e \<Rightarrow> Inl e
                | Inr r \<Rightarrow> Inr (Some r))))"
  using assms by (simp add: get_sensors_def Let_def split: sum.splits)




section \<open>Sensor 1\<close>



section \<open>Unit conversion at ingest\<close>







lemma read_values_sample_ok:
  "read_values C s vos res0 = Inr res \<Longrightarrow> sample_ok C res0 \<Longrightarrow> sample_ok C res"
proof (induction C s vos res0 rule: read_values.induct)
  case (1 C s res)
  then show ?case by simp
next
  case (2 C s sensor rest res0)
  show ?case
  proof (cases "content sensor = JNull
         \<or> (seq sensor \<notin> set (map fst (SENSORS C))
            \<and> seq sensor \<notin> set (map fst (BINARY_SENSORS C)))")
    case True
    with 2 show ?thesis by simp
  next
    case False
    from "2.prems"(1) have
      "(case content sensor of
           JNull \<Rightarrow> read_values C s rest res0
         | JUnparsable \<Rightarrow> Inl ValueError
         | JNumber q \<Rightarrow>
             (case sensor_reading C s (seq sensor) q of
                Inl e \<Rightarrow> Inl e
              | Inr v \<Rightarrow> read_values C s rest (AList.update (seq sensor) v res0))) = Inr res"
      unfolding read_values.simps if_not_P [OF False] .
    with False obtain q v where c: "content sensor = JNumber q"
      and v: "sensor_reading C s (seq sensor) q = Inr v"
      and r: "read_values C s rest (AList.update (seq sensor) v res0) = Inr res"
      by (cases "content sensor") (auto split: sum.splits)
    from False have "seq sensor \<in> set (map fst (SENSORS C)) \<union> set (map fst (BINARY_SENSORS C))"
      by blast
    with "2.prems"(2) have "sample_ok C (AList.update (seq sensor) v res0)"
      unfolding sample_ok_def by (auto simp: distinct_update update_keys)
    from "2.IH"(3) [OF False c v r this] show ?thesis .
  qed
qed




section \<open>The session\<close>

lemma sent_query: "sent (snd (query W qt f s)) = sent s @ [(qt, f)]"
  by (simp add: query_def Let_def split: http_outcome.splits body.splits query_type.splits
      option.splits)

lemma query_frame:
  "sensors (snd (query W qt f s)) = sensors s"
  "sensors_raw (snd (query W qt f s)) = sensors_raw s"
  "devices (snd (query W qt f s)) = devices s"
  "units (snd (query W qt f s)) = units s"
  "receive_tvoc_in_ppb (snd (query W qt f s)) = receive_tvoc_in_ppb s"
  "receive_hcho_in_ppb (snd (query W qt f s)) = receive_hcho_in_ppb s"
  "active_devices (snd (query W qt f s)) = active_devices s"
  by (simp_all add: query_def Let_def split: http_outcome.splits body.splits query_type.splits
      option.splits)

lemma query_api_uid: "uid (snd (query W QUERY_TYPE_API f s)) = uid s"
  by (simp add: query_def Let_def split: http_outcome.splits body.splits option.splits)

lemma connect_forced:
  "connect W True s =
     (case login W s of
        (Inl e, s1) \<Rightarrow> (Inl e, s1)
      | (Inr None, s1) \<Rightarrow> (Inr False, s1)
      | (Inr (Some ret), s1) \<Rightarrow>
          (case r_uid ret of
             None \<Rightarrow> (Inl (KeyError In_response), s1)
           | Some u \<Rightarrow>
               (case r_safeToken ret of
                  None \<Rightarrow> (Inl (KeyError In_response), s1\<lparr>uid := u\<rparr>)
                | Some t \<Rightarrow> (Inr True, s1\<lparr>uid := u, safeToken := t, devices := []\<rparr>))))"
  by (subst connect.simps) (simp add: login_def split: prod.splits sum.splits option.splits)

lemma connect_unforced:
  "connect W False s =
     (if 0 < uid s then (Inr True, s)
      else
        (case login W s of
           (Inl e, s1) \<Rightarrow> (Inl e, s1)
         | (Inr None, s1) \<Rightarrow> connect W True s1
         | (Inr (Some ret), s1) \<Rightarrow>
             (case r_uid ret of
                None \<Rightarrow> (Inl (KeyError In_response), s1)
              | Some u \<Rightarrow>
                  (case r_safeToken ret of
                     None \<Rightarrow> (Inl (KeyError In_response), s1\<lparr>uid := u\<rparr>)
                   | Some t \<Rightarrow> (Inr True, s1\<lparr>uid := u, safeToken := t, devices := []\<rparr>)))))"
  by (subst connect.simps) (simp add: login_def split: prod.splits sum.splits option.splits)

lemma sent_login: "sent (snd (login W s)) = sent s @ [(QUERY_TYPE_API, ''loginByEmail'')]"
  by (simp add: login_def sent_query)

lemma sent_connect_forced:
  "sent (snd (connect W True s)) = sent s @ [(QUERY_TYPE_API, ''loginByEmail'')]"
proof -
  obtain r s1 where l: "login W s = (r, s1)" by (cases "login W s")
  with sent_login [of W s] have "sent s1 = sent s @ [(QUERY_TYPE_API, ''loginByEmail'')]" by simp
  with l show ?thesis
    by (simp add: connect_forced split: sum.splits option.splits)
qed

lemma connect_unforced_failed:
  assumes "\<not> 0 < uid s" and "fst (login W s) = Inr None"
  shows "connect W False s = connect W True (snd (login W s))"
  using assms by (cases "login W s") (simp add: connect_unforced)

lemma connect_forced_failed:
  assumes "fst (login W s) = Inr None"
  shows "connect W True s = (Inr False, snd (login W s))"
  using assms by (cases "login W s") (simp add: connect_forced)

lemma sent_connect_unforced:
  "sent (snd (connect W False s)) =
     sent s @ replicate (if 0 < uid s then 0 else if fst (login W s) = Inr None then 2 else 1)
               (QUERY_TYPE_API, ''loginByEmail'')"
proof (cases "0 < uid s")
  case True
  then show ?thesis by (simp add: connect_unforced)
next
  case False
  show ?thesis
  proof (cases "fst (login W s) = Inr None")
    case True
    have "sent (snd (connect W True (snd (login W s))))
            = (sent s @ [(QUERY_TYPE_API, ''loginByEmail'')]) @ [(QUERY_TYPE_API, ''loginByEmail'')]"
      unfolding sent_connect_forced sent_login ..
    with True False show ?thesis
      by (simp add: connect_unforced_failed numeral_2_eq_2)
  next
    case nf: False
    obtain r s1 where l: "login W s = (r, s1)" by (cases "login W s")
    with sent_login [of W s] have s1: "sent s1 = sent s @ [(QUERY_TYPE_API, ''loginByEmail'')]"
      by simp
    from nf l have "r \<noteq> Inr None" by simp
    with False l s1 have "sent (snd (connect W False s)) = sent s @ [(QUERY_TYPE_API, ''loginByEmail'')]"
      by (simp add: connect_unforced split: sum.splits option.splits)
    with False nf show ?thesis by simp
  qed
qed




lemma sent_connect_bounded:
  "\<exists>n \<le> 2. sent (snd (connect W force s)) = sent s @ replicate n (QUERY_TYPE_API, ''loginByEmail'')"
proof (cases force)
  case True
  show ?thesis
  proof (rule exI [of _ 1])
    show "(1 :: nat) \<le> 2 \<and> sent (snd (connect W force s))
            = sent s @ replicate 1 (QUERY_TYPE_API, ''loginByEmail'')"
      using True by (simp add: sent_connect_forced)
  qed
next
  case False
  let ?n = "if 0 < uid s then 0 else if fst (login W s) = Inr None then 2 else (1 :: nat)"
  show ?thesis
  proof (rule exI [of _ ?n])
    show "?n \<le> 2 \<and> sent (snd (connect W force s))
            = sent s @ replicate ?n (QUERY_TYPE_API, ''loginByEmail'')"
      using False sent_connect_unforced [of W s] by simp
  qed
qed

text \<open>
  Claim C4. An unforced \<^verbatim>\<open>connect\<close> on a disconnected account whose login query fails
  goes on as the forced \<^verbatim>\<open>connect\<close>, which makes it two login queries in all, and returns
  \<^verbatim>\<open>False\<close> when the second login query fails too; a forced \<^verbatim>\<open>connect\<close> whose login
  query fails returns \<^verbatim>\<open>False\<close> after that one query; and no \<^verbatim>\<open>connect\<close>, whatever the
  account and the cloud, issues more than two requests, all of them login queries.
\<close>

theorem connect_retries_once:
  "(\<not> 0 < uid s \<and> fst (login W s) = Inr None \<longrightarrow>
      connect W False s = connect W True (snd (login W s))
      \<and> sent (snd (connect W False s)) = sent s @ replicate 2 (QUERY_TYPE_API, ''loginByEmail'')
      \<and> (fst (login W (snd (login W s))) = Inr None \<longrightarrow> fst (connect W False s) = Inr False))
   \<and> (fst (login W s) = Inr None \<longrightarrow>
      connect W True s = (Inr False, snd (login W s))
      \<and> sent (snd (connect W True s)) = sent s @ [(QUERY_TYPE_API, ''loginByEmail'')])
   \<and> (\<exists>n \<le> 2. sent (snd (connect W force s)) = sent s @ replicate n (QUERY_TYPE_API, ''loginByEmail''))"
proof -
  have a: "connect W False s = connect W True (snd (login W s))
      \<and> sent (snd (connect W False s)) = sent s @ replicate 2 (QUERY_TYPE_API, ''loginByEmail'')
      \<and> (fst (login W (snd (login W s))) = Inr None \<longrightarrow> fst (connect W False s) = Inr False)"
    if h: "\<not> 0 < uid s \<and> fst (login W s) = Inr None"
  proof -
    from h have a1: "connect W False s = connect W True (snd (login W s))"
      by (simp add: connect_unforced_failed)
    from h have a2: "sent (snd (connect W False s)) = sent s @ replicate 2 (QUERY_TYPE_API, ''loginByEmail'')"
      by (simp add: sent_connect_unforced)
    have a3: "fst (connect W False s) = Inr False" if "fst (login W (snd (login W s))) = Inr None"
      unfolding a1 using that by (simp add: connect_forced_failed)
    from a1 a2 a3 show ?thesis by (intro conjI impI)
  qed
  have b: "connect W True s = (Inr False, snd (login W s))
      \<and> sent (snd (connect W True s)) = sent s @ [(QUERY_TYPE_API, ''loginByEmail'')]"
    if "fst (login W s) = Inr None"
    using that by (simp add: connect_forced_failed sent_login)
  show ?thesis
  proof (intro conjI)
    show "\<not> 0 < uid s \<and> fst (login W s) = Inr None \<longrightarrow>
      connect W False s = connect W True (snd (login W s))
      \<and> sent (snd (connect W False s)) = sent s @ replicate 2 (QUERY_TYPE_API, ''loginByEmail'')
      \<and> (fst (login W (snd (login W s))) = Inr None \<longrightarrow> fst (connect W False s) = Inr False)"
      using a by (rule impI)
    show "fst (login W s) = Inr None \<longrightarrow>
      connect W True s = (Inr False, snd (login W s))
      \<and> sent (snd (connect W True s)) = sent s @ [(QUERY_TYPE_API, ''loginByEmail'')]"
      using b by (rule impI)
    show "\<exists>n \<le> 2. sent (snd (connect W force s)) = sent s @ replicate n (QUERY_TYPE_API, ''loginByEmail'')"
      by (rule sent_connect_bounded)
  qed
qed

theorem connect_retries_once_witness:
  "\<not> 0 < uid (init const_example False False)
   \<and> fst (login world_down (init const_example False False)) = Inr None
   \<and> fst (login world_down (snd (login world_down (init const_example False False)))) = Inr None
   \<and> fst (connect world_down False (init const_example False False)) = Inr False
   \<and> sent (snd (connect world_down False (init const_example False False)))
       = [(QUERY_TYPE_API, ''loginByEmail''), (QUERY_TYPE_API, ''loginByEmail'')]
   \<and> connect world_down True (init const_example False False)
       = (Inr False, snd (login world_down (init const_example False False)))"
proof -
  let ?s = "init const_example False False"
  have l: "fst (login world_down s) = Inr None" for s
    by (simp add: login_def query_def world_down_def)
  have u: "\<not> 0 < uid ?s" by (simp add: init_def)
  have e: "sent ?s = []" by (simp add: init_def)
  note t = connect_retries_once [of ?s world_down True]
  from t u l have a: "fst (connect world_down False ?s) = Inr False" by blast
  from t u l have "sent (snd (connect world_down False ?s))
      = sent ?s @ replicate 2 (QUERY_TYPE_API, ''loginByEmail'')" by blast
  with e have b: "sent (snd (connect world_down False ?s))
      = [(QUERY_TYPE_API, ''loginByEmail''), (QUERY_TYPE_API, ''loginByEmail'')]"
    by (simp add: numeral_2_eq_2)
  from t l have c: "connect world_down True ?s = (Inr False, snd (login world_down ?s))"
    by blast
  from u l a b c show ?thesis by blast
qed

text \<open>
  Claim C5. The controller is connected exactly when the session uid is positive: that is
  what \<^verbatim>\<open>is_connected\<close> returns, and a connected account answers an unforced
  \<^verbatim>\<open>connect\<close> with \<^verbatim>\<open>True\<close> without a request. A query on the device surface whose
  response has a non-zero \<^verbatim>\<open>returnCode\<close> returns \<^verbatim>\<open>None\<close> and leaves the uid at -1000,
  so the account is disconnected, and the next \<^verbatim>\<open>connect\<close> issues a login query.
\<close>

theorem device_query_failure_disconnects:
  assumes "reply W (length (sent s)) = Returned status_code (Json resp)"
    and "status_code = 200 \<or> status_code = 204"
    and "returnCode resp = Some rc" and "rc \<noteq> 0"
  shows "fst (query W QUERY_TYPE_DEVICE function s) = Inr None
       \<and> uid (snd (query W QUERY_TYPE_DEVICE function s)) = - 1000
       \<and> \<not> is_connected (snd (query W QUERY_TYPE_DEVICE function s))
       \<and> (is_connected s \<longleftrightarrow> 0 < uid s)
       \<and> (is_connected s \<longrightarrow> connect W False s = (Inr True, s))
       \<and> sent (snd (connect W False (snd (query W QUERY_TYPE_DEVICE function s))))
           = sent s @ (QUERY_TYPE_DEVICE, function) # (QUERY_TYPE_API, ''loginByEmail'')
               # (if fst (login W (snd (query W QUERY_TYPE_DEVICE function s))) = Inr None
                  then [(QUERY_TYPE_API, ''loginByEmail'')] else [])"
proof -
  let ?q = "query W QUERY_TYPE_DEVICE function s"
  from assms have r: "fst ?q = Inr None" and u: "uid (snd ?q) = - 1000"
    by (auto simp: query_def)
  from u have n: "\<not> is_connected (snd ?q)" by (simp add: is_connected_def)
  have c: "connect W False s = (Inr True, s)" if "is_connected s"
    using that by (simp add: connect_unforced is_connected_def)
  have "sent (snd (connect W False (snd ?q)))
          = sent (snd ?q) @ replicate (if fst (login W (snd ?q)) = Inr None then 2 else 1)
               (QUERY_TYPE_API, ''loginByEmail'')"
    using sent_connect_unforced [of W "snd ?q"] u by simp
  then have s: "sent (snd (connect W False (snd ?q)))
           = sent s @ (QUERY_TYPE_DEVICE, function) # (QUERY_TYPE_API, ''loginByEmail'')
               # (if fst (login W (snd ?q)) = Inr None
                  then [(QUERY_TYPE_API, ''loginByEmail'')] else [])"
    by (simp add: sent_query numeral_2_eq_2)
  from r u n c s show ?thesis by (simp add: is_connected_def)
qed

theorem device_query_failure_disconnects_witness:
  "reply world_rejecting (length (sent account_connected))
     = Returned 200 (Json \<lparr>code = Some 102, returnCode = Some 1, r_uid = None,
                           r_safeToken = None, deviceInfoBodyList = None,
                           deviceValueVos = None\<rparr>)
   \<and> is_connected account_connected
   \<and> fst (query world_rejecting QUERY_TYPE_DEVICE ''list'' account_connected) = Inr None
   \<and> uid (snd (query world_rejecting QUERY_TYPE_DEVICE ''list'' account_connected)) = - 1000
   \<and> \<not> is_connected (snd (query world_rejecting QUERY_TYPE_DEVICE ''list'' account_connected))"
proof -
  let ?resp = "\<lparr>code = Some 102, returnCode = Some 1, r_uid = None, r_safeToken = None,
                 deviceInfoBodyList = None, deviceValueVos = None\<rparr>"
  have h1: "reply world_rejecting (length (sent account_connected)) = Returned 200 (Json ?resp)"
    by (simp add: world_rejecting_def)
  have h2: "(200 :: int) = 200 \<or> (200 :: int) = 204" by simp
  have h3: "returnCode ?resp = Some 1" by simp
  have h4: "(1 :: int) \<noteq> 0" by simp
  have c: "is_connected account_connected"
    by (simp add: is_connected_def account_connected_def)
  from device_query_failure_disconnects [OF h1 h2 h3 h4, of "''list''"] h1 c
  show ?thesis by blast
qed

section \<open>The device list\<close>

lemma store_devices_map_of:
  assumes "\<forall>dev \<in> set devs. deviceid dev \<noteq> None"
  shows "\<exists>ds'. store_devices t devs ds = (None, ds')
           \<and> (\<forall>i. (\<forall>dev \<in> set devs. deviceid dev \<noteq> Some i) \<longrightarrow> map_of ds' i = map_of ds i)
           \<and> (\<forall>i. (\<exists>dev \<in> set devs. deviceid dev = Some i) \<longrightarrow>
                 (\<exists>dev \<in> set devs. deviceid dev = Some i
                    \<and> map_of ds' i = Some (dev\<lparr>stamp := Some t\<rparr>)))
           \<and> set (map fst ds') = set (map fst ds) \<union> {i. \<exists>dev \<in> set devs. deviceid dev = Some i}"
  using assms
proof (induction devs arbitrary: ds)
  case Nil
  show ?case by simp
next
  case (Cons dev rest)
  from Cons.prems obtain i0 where i0: "deviceid dev = Some i0" by auto
  let ?ds1 = "AList.update i0 (dev\<lparr>stamp := Some t\<rparr>) ds"
  from Cons.prems have "\<forall>dev \<in> set rest. deviceid dev \<noteq> None" by simp
  from Cons.IH [OF this, of ?ds1] obtain ds' where
    st: "store_devices t rest ?ds1 = (None, ds')"
    and ma: "\<And>i. \<forall>dev \<in> set rest. deviceid dev \<noteq> Some i \<Longrightarrow> map_of ds' i = map_of ?ds1 i"
    and mb: "\<And>i. \<exists>dev \<in> set rest. deviceid dev = Some i \<Longrightarrow>
                 \<exists>dev \<in> set rest. deviceid dev = Some i
                    \<and> map_of ds' i = Some (dev\<lparr>stamp := Some t\<rparr>)"
    and k: "set (map fst ds') = set (map fst ?ds1) \<union> {i. \<exists>dev \<in> set rest. deviceid dev = Some i}"
    by blast
  have st': "store_devices t (dev # rest) ds = (None, ds')" using st i0 by simp
  have ma': "map_of ds' i = map_of ds i" if "\<forall>d \<in> set (dev # rest). deviceid d \<noteq> Some i" for i
  proof -
    from that i0 have "i \<noteq> i0" and "\<forall>d \<in> set rest. deviceid d \<noteq> Some i" by auto
    with ma [of i] show ?thesis by (simp add: update_conv')
  qed
  have mb': "\<exists>d \<in> set (dev # rest). deviceid d = Some i \<and> map_of ds' i = Some (d\<lparr>stamp := Some t\<rparr>)"
    if "\<exists>d \<in> set (dev # rest). deviceid d = Some i" for i
  proof (cases "\<exists>d \<in> set rest. deviceid d = Some i")
    case True
    from mb [OF this] show ?thesis by auto
  next
    case False
    with that i0 have "i = i0" by auto
    moreover from False ma [of i] have "map_of ds' i = map_of ?ds1 i" by blast
    ultimately show ?thesis using i0 by (simp add: update_conv')
  qed
  have k': "set (map fst ds') = set (map fst ds) \<union> {i. \<exists>dev \<in> set (dev # rest). deviceid dev = Some i}"
    using k i0 by (auto simp: update_keys split: if_splits)
  from st' ma' mb' k' show ?case by blast
qed

lemma ensure_histories_apply:
  "ensure_histories ids m i = (if m i = None \<and> i \<in> set ids then Some [] else m i)"
  unfolding ensure_histories_def
  by (induction ids arbitrary: m) auto


lemma query_api_success:
  assumes "reply W (length (sent s)) = Returned status_code (Json resp)"
    and "status_code = 200 \<or> status_code = 204"
    and "code resp = Some 2000"
  shows "query W QUERY_TYPE_API f s = (Inr (Some resp), s\<lparr>sent := sent s @ [(QUERY_TYPE_API, f)]\<rparr>)"
  using assms by (auto simp: query_def)

lemma update_devices_refresh:
  assumes "connect W False s = (Inr True, s1)"
    and "force \<or> devices s1 = []"
    and "reply W (length (sent s1)) = Returned status_code (Json resp)"
    and "status_code = 200 \<or> status_code = 204"
    and "code resp = Some 2000"
    and "deviceInfoBodyList resp = Some devs"
    and "store_devices (now_ms W (Suc (length (sent s1)))) devs (devices s1) = (None, ds)"
  shows "update_devices W force s =
           (Inr (Some ds),
            s1\<lparr>sent := sent s1 @ [(QUERY_TYPE_API, ''deviceManager'')],
               devices := ds,
               sensors := ensure_histories (map fst ds) (sensors s1)\<rparr>)"
proof -
  note q = query_api_success [OF assms(3,4,5), of "''deviceManager''"]
  from assms(2) have c: "\<not> (\<not> force \<and> devices s1 \<noteq> [])" by blast
  show ?thesis
    by (subst update_devices.simps) (simp add: assms(1,6,7) q c)
qed

text \<open>
  Claim C6, as the code has it. When \<^verbatim>\<open>update_devices\<close> gets past \<^verbatim>\<open>connect\<close> and its
  device-list query succeeds, each device of the fresh list is stored under its id with the
  refresh timestamp (the last one of an id, when the list repeats it), every id of the
  cache has an entry in the history map, and histories that existed are left as they were.
  The fresh list is merged into the cache as \<^verbatim>\<open>connect\<close> left it: an entry whose id is not
  in the fresh list stays. That cache is empty after a login and whenever the refresh is
  unforced, and then the cache afterwards holds the ids of the fresh list and no other.
\<close>

theorem update_devices_merges_fresh_list:
  assumes "connect W False s = (Inr True, s1)"
    and "force \<or> devices s1 = []"
    and "reply W (length (sent s1)) = Returned status_code (Json resp)"
    and "status_code = 200 \<or> status_code = 204"
    and "code resp = Some 2000"
    and "deviceInfoBodyList resp = Some devs"
    and "\<forall>dev \<in> set devs. deviceid dev \<noteq> None"
    and "tstamp = now_ms W (Suc (length (sent s1)))"
    and "s' = snd (update_devices W force s)"
  shows "fst (update_devices W force s) = Inr (Some (devices s'))
       \<and> (\<forall>i. (\<exists>dev \<in> set devs. deviceid dev = Some i) \<longrightarrow>
             (\<exists>dev \<in> set devs. deviceid dev = Some i
                \<and> map_of (devices s') i = Some (dev\<lparr>stamp := Some tstamp\<rparr>)))
       \<and> (\<forall>i. (\<forall>dev \<in> set devs. deviceid dev \<noteq> Some i) \<longrightarrow>
             map_of (devices s') i = map_of (devices s1) i)
       \<and> (devices s1 = [] \<longrightarrow>
             set (map fst (devices s')) = {i. \<exists>dev \<in> set devs. deviceid dev = Some i})
       \<and> (\<forall>i \<in> set (map fst (devices s')). sensors s' i \<noteq> None)
       \<and> (\<forall>i. sensors s i \<noteq> None \<longrightarrow> sensors s' i = sensors s i)
       \<and> (0 < uid s \<longrightarrow> devices s1 = devices s)
       \<and> (\<not> 0 < uid s \<longrightarrow> devices s1 = [])"
proof -
  from store_devices_map_of [OF assms(7), of tstamp "devices s1"] obtain ds where
    st: "store_devices tstamp devs (devices s1) = (None, ds)"
    and ma: "\<And>i. \<forall>dev \<in> set devs. deviceid dev \<noteq> Some i \<Longrightarrow> map_of ds i = map_of (devices s1) i"
    and mb: "\<And>i. \<exists>dev \<in> set devs. deviceid dev = Some i \<Longrightarrow>
                 \<exists>dev \<in> set devs. deviceid dev = Some i
                    \<and> map_of ds i = Some (dev\<lparr>stamp := Some tstamp\<rparr>)"
    and k: "set (map fst ds) = set (map fst (devices s1)) \<union> {i. \<exists>dev \<in> set devs. deviceid dev = Some i}"
    by blast
  from update_devices_refresh [OF assms(1-6) st [unfolded assms(8)]]
  have u: "update_devices W force s =
           (Inr (Some ds),
            s1\<lparr>sent := sent s1 @ [(QUERY_TYPE_API, ''deviceManager'')],
               devices := ds,
               sensors := ensure_histories (map fst ds) (sensors s1)\<rparr>)" .
  then have d: "devices s' = ds"
    and h: "sensors s' = ensure_histories (map fst ds) (sensors s1)"
    by (simp_all add: assms(9))
  have s1s: "sensors s1 = sensors s"
  proof (cases "0 < uid s")
    case True
    with assms(1) show ?thesis by (simp add: connect_unforced)
  next
    case False
    have f: "sensors (snd (login W x)) = sensors x" for x
      by (simp add: login_def query_frame)
    have g: "sensors (snd (connect W True x)) = sensors x" for x
      using f [of x] by (cases "login W x") (simp add: connect_forced split: sum.splits option.splits)
    have "sensors (snd (connect W False s)) = sensors s"
      using False f [of s] g [of "snd (login W s)"]
      by (cases "login W s") (simp add: connect_unforced split: sum.splits option.splits)
    with assms(1) show ?thesis by simp
  qed
  have c1: "devices s1 = devices s" if "0 < uid s"
    using that assms(1) by (simp add: connect_unforced)
  have c2: "devices s1 = []" if "\<not> 0 < uid s"
  proof -
    have g: "fst (connect W True x) = Inr True \<Longrightarrow> devices (snd (connect W True x)) = []" for x
      by (cases "login W x") (auto simp: connect_forced split: sum.splits option.splits)
    have "fst (connect W False s) = Inr True \<Longrightarrow> devices (snd (connect W False s)) = []"
      using that g [of "snd (login W s)"]
      by (cases "login W s") (auto simp: connect_unforced split: sum.splits option.splits)
    with assms(1) show ?thesis by simp
  qed
  from u have 1: "fst (update_devices W force s) = Inr (Some (devices s'))" by (simp add: d)
  have 5: "\<forall>i \<in> set (map fst (devices s')). sensors s' i \<noteq> None"
    by (simp add: d h ensure_histories_apply)
  have 6: "\<forall>i. sensors s i \<noteq> None \<longrightarrow> sensors s' i = sensors s i"
    by (simp add: h ensure_histories_apply s1s)
  from 1 ma mb k 5 6 c1 c2 show ?thesis unfolding d by (intro conjI allI impI) auto
qed

theorem update_devices_merges_fresh_list_witness:
  "connect world_accepting False account_connected = (Inr True, account_connected)
   \<and> reply world_accepting (length (sent account_connected))
       = Returned 200 (Json \<lparr>code = Some 2000, returnCode = Some 0, r_uid = Some 7,
                              r_safeToken = Some ''token'',
                              deviceInfoBodyList = Some [device_new],
                              deviceValueVos = Some [\<lparr>seq = 4, content = JNumber 21\<rparr>]\<rparr>)
   \<and> deviceid device_new = Some ''new''
   \<and> map_of (devices (snd (update_devices world_accepting True account_connected))) ''new''
       = Some (device_new\<lparr>stamp := Some 1001\<rparr>)
   \<and> map_of (devices (snd (update_devices world_accepting True account_connected))) ''old''
       = Some device_old
   \<and> sensors (snd (update_devices world_accepting True account_connected)) ''new'' \<noteq> None"
proof -
  let ?resp = "\<lparr>code = Some 2000, returnCode = Some 0, r_uid = Some 7,
                 r_safeToken = Some ''token'', deviceInfoBodyList = Some [device_new],
                 deviceValueVos = Some [\<lparr>seq = 4, content = JNumber 21\<rparr>]\<rparr>"
  let ?s' = "snd (update_devices world_accepting True account_connected)"
  have h1: "connect world_accepting False account_connected = (Inr True, account_connected)"
    by (simp add: connect_unforced account_connected_def)
  have h2: "True \<or> devices account_connected = []" by simp
  have h3: "reply world_accepting (length (sent account_connected)) = Returned 200 (Json ?resp)"
    by (simp add: world_accepting_def)
  have h4: "(200 :: int) = 200 \<or> (200 :: int) = 204" by simp
  have h5: "code ?resp = Some 2000" by simp
  have h6: "deviceInfoBodyList ?resp = Some [device_new]" by simp
  have h7: "\<forall>dev \<in> set [device_new]. deviceid dev \<noteq> None" by (simp add: device_new_def)
  have h8: "(1001 :: int) = now_ms world_accepting (Suc (length (sent account_connected)))"
    by (simp add: world_accepting_def account_connected_def init_def)
  have i: "deviceid device_new = Some ''new''" by (simp add: device_new_def)
  note t = update_devices_merges_fresh_list [OF h1 h2 h3 h4 h5 h6 h7 h8 refl]
  from t i have a: "map_of (devices ?s') ''new'' = Some (device_new\<lparr>stamp := Some 1001\<rparr>)"
    by auto
  from t i have "map_of (devices ?s') ''old'' = map_of (devices account_connected) ''old''"
    by auto
  then have b: "map_of (devices ?s') ''old'' = Some device_old"
    by (simp add: account_connected_def)
  have "''new'' \<in> set (map fst (devices ?s'))"
    using a by (metis map_of_eq_None_iff option.distinct(1) set_map)
  with t have c: "sensors ?s' ''new'' \<noteq> None" by blast
  from h1 h3 i a b c show ?thesis by blast
qed

text \<open>The claim as stated fails on a forced refresh of a connected account: the cached
  device, absent from the fresh list, is still cached afterwards.\<close>

theorem update_devices_replaces_cache_counterexample:
  "map fst (devices account_connected) = [''old'']
   \<and> fst (update_devices world_accepting True account_connected)
       = Inr (Some [(''old'', device_old), (''new'', device_new\<lparr>stamp := Some 1001\<rparr>)])
   \<and> map fst (devices (snd (update_devices world_accepting True account_connected)))
       = [''old'', ''new'']"
proof -
  have h1: "connect world_accepting False account_connected = (Inr True, account_connected)"
    by (simp add: connect_unforced account_connected_def)
  have st: "store_devices (now_ms world_accepting (Suc (length (sent account_connected))))
              [device_new] (devices account_connected)
            = (None, [(''old'', device_old), (''new'', device_new\<lparr>stamp := Some 1001\<rparr>)])"
    by (simp add: world_accepting_def account_connected_def init_def device_new_def)
  have "update_devices world_accepting True account_connected =
           (Inr (Some [(''old'', device_old), (''new'', device_new\<lparr>stamp := Some 1001\<rparr>)]),
            account_connected\<lparr>sent := sent account_connected @ [(QUERY_TYPE_API, ''deviceManager'')],
               devices := [(''old'', device_old), (''new'', device_new\<lparr>stamp := Some 1001\<rparr>)],
               sensors := ensure_histories
                 (map fst [(''old'', device_old), (''new'', device_new\<lparr>stamp := Some 1001\<rparr>)])
                 (sensors account_connected)\<rparr>)"
  proof (rule update_devices_refresh [OF h1 _ _ _ _ _ st])
    show "True \<or> devices account_connected = []" by simp
    show "reply world_accepting (length (sent account_connected))
       = Returned 200 (Json \<lparr>code = Some 2000, returnCode = Some 0, r_uid = Some 7,
                              r_safeToken = Some ''token'',
                              deviceInfoBodyList = Some [device_new],
                              deviceValueVos = Some [\<lparr>seq = 4, content = JNumber 21\<rparr>]\<rparr>)"
      by (simp add: world_accepting_def)
    show "(200 :: int) = 200 \<or> (200 :: int) = 204" by simp
    show "code \<lparr>code = Some 2000, returnCode = Some 0, r_uid = Some 7,
                              r_safeToken = Some ''token'',
                              deviceInfoBodyList = Some [device_new],
                              deviceValueVos = Some [\<lparr>seq = 4, content = JNumber 21\<rparr>]\<rparr>
            = Some 2000" by simp
    show "deviceInfoBodyList \<lparr>code = Some 2000, returnCode = Some 0, r_uid = Some 7,
                              r_safeToken = Some ''token'',
                              deviceInfoBodyList = Some [device_new],
                              deviceValueVos = Some [\<lparr>seq = 4, content = JNumber 21\<rparr>]\<rparr>
            = Some [device_new]" by simp
  qed
  then show ?thesis by (simp add: account_connected_def)
qed

section \<open>The raw snapshot and the history\<close>

lemma login_frame:
  "sensors (snd (login W s)) = sensors s"
  "sensors_raw (snd (login W s)) = sensors_raw s"
  "units (snd (login W s)) = units s"
  "receive_tvoc_in_ppb (snd (login W s)) = receive_tvoc_in_ppb s"
  "receive_hcho_in_ppb (snd (login W s)) = receive_hcho_in_ppb s"
  by (simp_all add: login_def query_frame)

lemma connect_forced_frame:
  "sensors (snd (connect W True s)) = sensors s
   \<and> sensors_raw (snd (connect W True s)) = sensors_raw s
   \<and> units (snd (connect W True s)) = units s
   \<and> receive_tvoc_in_ppb (snd (connect W True s)) = receive_tvoc_in_ppb s
   \<and> receive_hcho_in_ppb (snd (connect W True s)) = receive_hcho_in_ppb s"
  using login_frame [of W s]
  by (cases "login W s") (simp add: connect_forced split: sum.splits option.splits)

lemma connect_frame:
  "sensors (snd (connect W force s)) = sensors s
   \<and> sensors_raw (snd (connect W force s)) = sensors_raw s
   \<and> units (snd (connect W force s)) = units s
   \<and> receive_tvoc_in_ppb (snd (connect W force s)) = receive_tvoc_in_ppb s
   \<and> receive_hcho_in_ppb (snd (connect W force s)) = receive_hcho_in_ppb s"
proof (cases force)
  case True
  then show ?thesis using connect_forced_frame by simp
next
  case False
  have "sensors (snd (connect W False s)) = sensors s
   \<and> sensors_raw (snd (connect W False s)) = sensors_raw s
   \<and> units (snd (connect W False s)) = units s
   \<and> receive_tvoc_in_ppb (snd (connect W False s)) = receive_tvoc_in_ppb s
   \<and> receive_hcho_in_ppb (snd (connect W False s)) = receive_hcho_in_ppb s"
    using login_frame [of W s] connect_forced_frame [of W "snd (login W s)"]
    by (cases "login W s") (simp add: connect_unforced split: sum.splits option.splits)
  with False show ?thesis by simp
qed

lemma grows_refl: "grows s s"
  by (simp add: grows_def)

lemma grows_trans: "grows s s1 \<Longrightarrow> grows s1 s2 \<Longrightarrow> grows s s2"
proof -
  assume a: "grows s s1" and b: "grows s1 s2"
  have "sensors s2 d = sensors s d \<or> (sensors s d = None \<and> sensors s2 d = Some [])" for d
    using a b unfolding grows_def by (metis option.distinct(1))
  with a b show ?thesis unfolding grows_def by simp
qed

lemma grows_eq:
  "sensors s' = sensors s \<Longrightarrow> sensors_raw s' = sensors_raw s \<Longrightarrow> units s' = units s
     \<Longrightarrow> receive_tvoc_in_ppb s' = receive_tvoc_in_ppb s
     \<Longrightarrow> receive_hcho_in_ppb s' = receive_hcho_in_ppb s \<Longrightarrow> grows s s'"
  by (simp add: grows_def)

lemma grows_connect: "grows s (snd (connect W force s))"
  using connect_frame [of W force s] by (simp add: grows_eq)

lemma grows_query: "grows s (snd (query W qt f s))"
  by (simp add: grows_eq query_frame)

lemma grows_ensure:
  "sensors_raw s' = sensors_raw s \<Longrightarrow> sensors s' = ensure_histories ids (sensors s)
     \<Longrightarrow> units s' = units s \<Longrightarrow> receive_tvoc_in_ppb s' = receive_tvoc_in_ppb s
     \<Longrightarrow> receive_hcho_in_ppb s' = receive_hcho_in_ppb s \<Longrightarrow> grows s s'"
  by (simp add: grows_def ensure_histories_apply)

lemma update_devices_forced_grows: "grows s (snd (update_devices W True s))"
proof -
  obtain r s1 where c: "connect W False s = (r, s1)" by (cases "connect W False s")
  with grows_connect [of s W False] have g1: "grows s s1" by simp
  obtain q s2 where qq: "query W QUERY_TYPE_API ''deviceManager'' s1 = (q, s2)"
    by (cases "query W QUERY_TYPE_API ''deviceManager'' s1")
  with grows_query [of s1 W QUERY_TYPE_API "''deviceManager''"] have g2: "grows s1 s2" by simp
  from g1 g2 have g12: "grows s s2" by (rule grows_trans)
  have g3: "grows s (s2\<lparr>devices := ds\<rparr>)" for ds
    using g12 by (simp add: grows_def)
  have g4: "grows s (s2\<lparr>devices := ds, sensors := ensure_histories ids (sensors s2)\<rparr>)" for ds ids
    by (rule grows_trans [OF g12]) (simp add: grows_ensure)
  show ?thesis
    by (subst update_devices.simps)
      (simp add: c qq g1 g12 g3 g4 split: sum.splits option.splits bool.splits prod.splits)
qed

lemma update_devices_grows: "grows s (snd (update_devices W force s))"
proof (cases force)
  case True
  then show ?thesis using update_devices_forced_grows by simp
next
  case False
  obtain r s1 where c: "connect W False s = (r, s1)" by (cases "connect W False s")
  with grows_connect [of s W False] have g1: "grows s s1" by simp
  obtain q s2 where qq: "query W QUERY_TYPE_API ''deviceManager'' s1 = (q, s2)"
    by (cases "query W QUERY_TYPE_API ''deviceManager'' s1")
  with grows_query [of s1 W QUERY_TYPE_API "''deviceManager''"] have g2: "grows s1 s2" by simp
  from g1 g2 have g12: "grows s s2" by (rule grows_trans)
  have g3: "grows s (s2\<lparr>devices := ds\<rparr>)" for ds
    using g12 by (simp add: grows_def)
  have g4: "grows s (s2\<lparr>devices := ds, sensors := ensure_histories ids (sensors s2)\<rparr>)" for ds ids
    by (rule grows_trans [OF g12]) (simp add: grows_ensure)
  have g5: "grows s (snd (update_devices W True s2))"
    by (rule grows_trans [OF g12 update_devices_forced_grows])
  have "grows s (snd (update_devices W False s))"
    by (subst update_devices.simps)
      (simp add: c qq g1 g12 g3 g4 g5 split: sum.splits option.splits bool.splits prod.splits)
  with False show ?thesis by simp
qed


lemma grows_raw_covers: "grows s s' \<Longrightarrow> raw_covers s \<Longrightarrow> raw_covers s'"
proof -
  assume g: "grows s s'" and r: "raw_covers s"
  have "sensors_raw s' d \<noteq> None" if "sensors s' d = Some h" "h \<noteq> []" for d h
  proof -
    from g have "sensors s' d = sensors s d \<or> (sensors s d = None \<and> sensors s' d = Some [])"
      unfolding grows_def by blast
    with that have "sensors s d = Some h" by auto
    with r that(2) have "sensors_raw s d \<noteq> None" unfolding raw_covers_def by blast
    with g show ?thesis unfolding grows_def by simp
  qed
  then show ?thesis unfolding raw_covers_def by blast
qed

lemma stored_raw_covers: "stored C d ts s s' \<Longrightarrow> raw_covers s \<Longrightarrow> raw_covers s'"
proof -
  assume "stored C d ts s s'" and r: "raw_covers s"
  then obtain s2 res h where g: "grows s s2"
    and s: "sensors s' = (sensors s2)(d \<mapsto> AList.update ts res h)"
    and w: "sensors_raw s' = (sensors_raw s2)(d \<mapsto> res)"
    unfolding stored_def by blast
  from grows_raw_covers [OF g r] have "raw_covers s2" .
  then show ?thesis unfolding raw_covers_def s w by auto
qed

lemma stored_grows: "grows s s1 \<Longrightarrow> stored C d ts s1 s' \<Longrightarrow> stored C d ts s s'"
  unfolding stored_def using grows_trans by blast

lemma fetch_sensors_forced_outcome:
  "if fst (fetch_sensors C W d ts True s) = Inr True
   then stored C d ts s (snd (fetch_sensors C W d ts True s))
   else grows s (snd (fetch_sensors C W d ts True s))"
proof -
  obtain r s1 where c: "update_devices W False s = (r, s1)" by (cases "update_devices W False s")
  with update_devices_grows [of s W False] have g1: "grows s s1" by simp
  obtain q s2 where qq: "query W QUERY_TYPE_DEVICE ''list'' s1 = (q, s2)"
    by (cases "query W QUERY_TYPE_DEVICE ''list'' s1")
  with grows_query [of s1 W QUERY_TYPE_DEVICE "''list''"] have g2: "grows s1 s2" by simp
  from g1 g2 have g12: "grows s s2" by (rule grows_trans)
  have st: "stored C d ts s (s2\<lparr>sensors := (sensors s2)(d \<mapsto> AList.update ts res h),
                               sensors_raw := (sensors_raw s2)(d \<mapsto> res)\<rparr>)"
    if "sensors s2 d = Some h" "read_values C s2 vos [] = Inr res" for res h vos
    unfolding stored_def using g12 that read_values_sample_ok [OF that(2)]
    by (intro exI [of _ s2] exI [of _ res] exI [of _ h]) (simp add: sample_ok_def)
  show ?thesis
    by (subst (1 2 3) fetch_sensors.simps)
      (simp add: c qq g1 g12 st split: sum.splits option.splits bool.splits prod.splits)
qed

lemma fetch_sensors_outcome:
  "if fst (fetch_sensors C W d ts force s) = Inr True
   then stored C d ts s (snd (fetch_sensors C W d ts force s))
   else grows s (snd (fetch_sensors C W d ts force s))"
proof (cases force)
  case True
  then show ?thesis using fetch_sensors_forced_outcome [of C W d ts s] by simp
next
  case False
  obtain r s1 where c: "update_devices W False s = (r, s1)" by (cases "update_devices W False s")
  with update_devices_grows [of s W False] have g1: "grows s s1" by simp
  obtain q s2 where qq: "query W QUERY_TYPE_DEVICE ''list'' s1 = (q, s2)"
    by (cases "query W QUERY_TYPE_DEVICE ''list'' s1")
  with grows_query [of s1 W QUERY_TYPE_DEVICE "''list''"] have g2: "grows s1 s2" by simp
  from g1 g2 have g12: "grows s s2" by (rule grows_trans)
  have st: "stored C d ts s (s2\<lparr>sensors := (sensors s2)(d \<mapsto> AList.update ts res h),
                               sensors_raw := (sensors_raw s2)(d \<mapsto> res)\<rparr>)"
    if "sensors s2 d = Some h" "read_values C s2 vos [] = Inr res" for res h vos
    unfolding stored_def using g12 that read_values_sample_ok [OF that(2)]
    by (intro exI [of _ s2] exI [of _ res] exI [of _ h]) (simp add: sample_ok_def)
  have rec: "if fst (fetch_sensors C W d ts True s2) = Inr True
     then stored C d ts s (snd (fetch_sensors C W d ts True s2))
     else grows s (snd (fetch_sensors C W d ts True s2))"
    using fetch_sensors_forced_outcome [of C W d ts s2] g12
    by (auto intro: stored_grows grows_trans)
  have "if fst (fetch_sensors C W d ts False s) = Inr True
   then stored C d ts s (snd (fetch_sensors C W d ts False s))
   else grows s (snd (fetch_sensors C W d ts False s))"
    using rec
    by (subst (1 2 3) fetch_sensors.simps)
      (simp add: c qq g1 g12 st split: sum.splits option.splits bool.splits prod.splits)
  with False show ?thesis by simp
qed


lemma fetch_sensors_raw_covers:
  "raw_covers s \<Longrightarrow> raw_covers (snd (fetch_sensors C W d ts force s))"
  using fetch_sensors_outcome [of C W d ts force s]
  by (auto split: if_splits intro: stored_raw_covers grows_raw_covers)

lemma update_sensors_loop_raw_covers:
  "raw_covers s \<Longrightarrow> raw_covers (snd (update_sensors_loop C W ts_now ds s))"
proof (induction ds arbitrary: s)
  case Nil
  then show ?case by simp
next
  case (Cons d ds)
  show ?case
  proof (cases "sensors s d")
    case None
    with Cons.prems show ?thesis by simp
  next
    case (Some h)
    obtain r s1 where f: "fetch_sensors C W d ts_now False s = (r, s1)"
      by (cases "fetch_sensors C W d ts_now False s")
    with fetch_sensors_raw_covers [OF Cons.prems, of C W d ts_now False]
    have r1: "raw_covers s1" by simp
    from Cons.IH [OF r1] Cons.IH [OF Cons.prems] Some f r1 show ?thesis
      by (simp split: sum.splits)
  qed
qed

lemma get_sensors_raw_covers:
  "raw_covers s \<Longrightarrow> raw_covers (snd (get_sensors C ts_now d s))"
proof -
  assume r: "raw_covers s"
  let ?c = "PFloat (of_int ts_now - SENSORS_FILTER_FRAME C)"
  let ?h = "case sensors s d of None \<Rightarrow> [] | Some h \<Rightarrow> h"
  have "sensors_raw s d \<noteq> None" if "filter_historic ?c ?h \<noteq> []"
  proof -
    from that have "?h \<noteq> []" by (auto simp: filter_historic_Nil)
    then obtain h where "sensors s d = Some h" "h \<noteq> []" by (cases "sensors s d") auto
    with r show ?thesis unfolding raw_covers_def by blast
  qed
  with r show ?thesis unfolding snd_get_sensors raw_covers_def by auto
qed

lemma reachable_raw_covers: "reachable C W s \<Longrightarrow> raw_covers s"
proof (induction rule: reachable.induct)
  case (reach_init tvoc_in_ppb hcho_in_ppb)
  show ?case by (simp add: raw_covers_def init_def)
next
  case (reach_connect s force)
  then show ?case using grows_connect grows_raw_covers by blast
next
  case (reach_update_devices s force)
  then show ?case using update_devices_grows grows_raw_covers by blast
next
  case (reach_fetch_sensors s device_id ts_now force)
  then show ?case by (simp add: fetch_sensors_raw_covers)
next
  case (reach_update_sensors s ts_now)
  then show ?case by (simp add: update_sensors_def update_sensors_loop_raw_covers)
next
  case (reach_get_sensors s ts_now device_id)
  then show ?case by (simp add: get_sensors_raw_covers)
next
  case (reach_set_active_devices s devs)
  have "grows s (set_active_devices devs s)"
    by (rule grows_ensure [of _ _ devs]) (simp_all add: set_active_devices_def)
  with reach_set_active_devices show ?case using grows_raw_covers by blast
next
  case (reach_append_active_device s device_id)
  then show ?case by (simp add: raw_covers_def)
qed

lemma get_sensors_raw_lookup:
  assumes "raw_covers s"
  shows "fst (get_sensors C ts_now d s) \<noteq> Inl (KeyError In_sensors_raw)"
proof -
  let ?c = "PFloat (of_int ts_now - SENSORS_FILTER_FRAME C)"
  let ?h = "case sensors s d of None \<Rightarrow> [] | Some h \<Rightarrow> h"
  let ?p = "filter_historic ?c ?h"
  show ?thesis
  proof (cases "?p = []")
    case True
    then show ?thesis by (simp add: get_sensors_def Let_def)
  next
    case False
    then have "?h \<noteq> []" by (auto simp: filter_historic_Nil)
    then obtain h where "sensors s d = Some h" "h \<noteq> []" by (cases "sensors s d") auto
    with assms obtain raw where raw: "sensors_raw s d = Some raw"
      unfolding raw_covers_def by blast
    note f = fst_get_sensors [OF refl False raw]
    show ?thesis
    proof (cases "accumulate ts_now ?c raw ?p")
      case (Inl e)
      with accumulate_error [OF Inl] show ?thesis unfolding f by simp
    next
      case (Inr totals)
      note t = Inr
      show ?thesis
      proof (cases "window_length ts_now ?c ?p")
        case (Inl e)
        then have "e = ValueError" by (auto simp: window_length_def split: list.splits)
        with Inl t show ?thesis unfolding f by simp
      next
        case (Inr len)
        note l = Inr
        show ?thesis
        proof (cases "average_and_round (units s) raw len totals")
          case (Inl e)
          from accumulate_keys [OF t] have "set (map fst totals) \<subseteq> set (map fst raw)" by simp
          from average_and_round_error [OF Inl this] Inl t l show ?thesis unfolding f by simp
        next
          case (Inr r)
          with t l show ?thesis unfolding f by simp
        qed
      qed
    qed
  qed
qed

lemma stored_facts:
  assumes "stored C d ts s s'"
  shows "\<exists>res h. sensors_raw s' d = Some res \<and> sensors s' d = Some h \<and> map_of h ts = Some res"
    and "\<forall>d'. d' \<noteq> d \<longrightarrow> sensors_raw s' d' = sensors_raw s d'"
proof -
  from assms obtain s2 res h where g: "grows s s2"
    and s: "sensors s' = (sensors s2)(d \<mapsto> AList.update ts res h)"
    and w: "sensors_raw s' = (sensors_raw s2)(d \<mapsto> res)"
    unfolding stored_def by blast
  show "\<exists>res h. sensors_raw s' d = Some res \<and> sensors s' d = Some h \<and> map_of h ts = Some res"
    unfolding s w by (simp add: update_conv')
  from g show "\<forall>d'. d' \<noteq> d \<longrightarrow> sensors_raw s' d' = sensors_raw s d'"
    unfolding w by (simp add: grows_def)
qed

text \<open>
  Claim C10. In every reachable account, a device whose history is non-empty has a raw
  snapshot, so that the lookups of the raw snapshot in \<^verbatim>\<open>get_sensors\<close> do not raise. The
  snapshot is the sample set of the last successful ingest: a call of \<^verbatim>\<open>_fetch_sensors\<close>
  that returns \<^verbatim>\<open>True\<close> has stored one sample set both in the history, at the timestamp of
  the call, and as the raw snapshot of the device, and has left the snapshots of the other
  devices alone; a call that does not return \<^verbatim>\<open>True\<close>, and every call of \<^verbatim>\<open>connect\<close>,
  \<^verbatim>\<open>update_devices\<close> and \<^verbatim>\<open>get_sensors\<close>, leaves all raw snapshots as they are.
\<close>

theorem raw_snapshot_covers_history:
  assumes "reachable C W s"
  shows "(\<forall>d h. sensors s d = Some h \<and> h \<noteq> [] \<longrightarrow> sensors_raw s d \<noteq> None)
       \<and> (\<forall>ts_now d. fst (get_sensors C ts_now d s) \<noteq> Inl (KeyError In_sensors_raw))
       \<and> (\<forall>d ts force. fst (fetch_sensors C W d ts force s) = Inr True \<longrightarrow>
             (\<exists>res h. sensors_raw (snd (fetch_sensors C W d ts force s)) d = Some res
                \<and> sensors (snd (fetch_sensors C W d ts force s)) d = Some h
                \<and> map_of h ts = Some res)
             \<and> (\<forall>d'. d' \<noteq> d \<longrightarrow>
                   sensors_raw (snd (fetch_sensors C W d ts force s)) d' = sensors_raw s d'))
       \<and> (\<forall>d ts force. fst (fetch_sensors C W d ts force s) \<noteq> Inr True \<longrightarrow>
             sensors_raw (snd (fetch_sensors C W d ts force s)) = sensors_raw s)
       \<and> (\<forall>force. sensors_raw (snd (connect W force s)) = sensors_raw s)
       \<and> (\<forall>force. sensors_raw (snd (update_devices W force s)) = sensors_raw s)
       \<and> (\<forall>ts_now d. sensors_raw (snd (get_sensors C ts_now d s)) = sensors_raw s)"
proof -
  from assms have r: "raw_covers s" by (rule reachable_raw_covers)
  then have 1: "\<forall>d h. sensors s d = Some h \<and> h \<noteq> [] \<longrightarrow> sensors_raw s d \<noteq> None"
    by (simp add: raw_covers_def)
  have 2: "\<forall>ts_now d. fst (get_sensors C ts_now d s) \<noteq> Inl (KeyError In_sensors_raw)"
    using get_sensors_raw_lookup [OF r] by blast
  have 3: "(\<exists>res h. sensors_raw (snd (fetch_sensors C W d ts force s)) d = Some res
                \<and> sensors (snd (fetch_sensors C W d ts force s)) d = Some h
                \<and> map_of h ts = Some res)
             \<and> (\<forall>d'. d' \<noteq> d \<longrightarrow>
                   sensors_raw (snd (fetch_sensors C W d ts force s)) d' = sensors_raw s d')"
    if "fst (fetch_sensors C W d ts force s) = Inr True" for d ts force
  proof -
    from fetch_sensors_outcome [of C W d ts force s] that
    have "stored C d ts s (snd (fetch_sensors C W d ts force s))" by simp
    from stored_facts [OF this] show ?thesis by blast
  qed
  have 4: "sensors_raw (snd (fetch_sensors C W d ts force s)) = sensors_raw s"
    if "fst (fetch_sensors C W d ts force s) \<noteq> Inr True" for d ts force
    using fetch_sensors_outcome [of C W d ts force s] that by (simp add: grows_def)
  have 5: "\<forall>force. sensors_raw (snd (connect W force s)) = sensors_raw s"
    using connect_frame by blast
  have 6: "\<forall>force. sensors_raw (snd (update_devices W force s)) = sensors_raw s"
    using update_devices_grows by (simp add: grows_def)
  have 7: "\<forall>ts_now d. sensors_raw (snd (get_sensors C ts_now d s)) = sensors_raw s"
    by (simp add: snd_get_sensors)
  from 1 2 3 4 5 6 7 show ?thesis by blast
qed

theorem raw_snapshot_covers_history_witness:
  "reachable const_example world_accepting
     (snd (fetch_sensors const_example world_accepting ''new'' 100 False
            (init const_example False False)))
   \<and> sensors (snd (fetch_sensors const_example world_accepting ''new'' 100 False
                    (init const_example False False))) ''new''
       = Some [(100, [(4, PInt 21)])]
   \<and> sensors_raw (snd (fetch_sensors const_example world_accepting ''new'' 100 False
                        (init const_example False False))) ''new''
       \<noteq> None
   \<and> fst (get_sensors const_example 110 ''new''
            (snd (fetch_sensors const_example world_accepting ''new'' 100 False
                   (init const_example False False))))
       \<noteq> Inl (KeyError In_sensors_raw)"
proof -
  let ?s = "snd (fetch_sensors const_example world_accepting ''new'' 100 False
                  (init const_example False False))"
  have r: "reachable const_example world_accepting ?s"
    by (rule reach_fetch_sensors) (rule reach_init)
  have h: "sensors ?s ''new'' = Some [(100, [(4, PInt 21)])]" by code_simp
  note t = raw_snapshot_covers_history [OF r]
  from t h have a: "sensors_raw ?s ''new'' \<noteq> None" by blast
  from t have b: "fst (get_sensors const_example 110 ''new'' ?s) \<noteq> Inl (KeyError In_sensors_raw)"
    by blast
  from r h a b show ?thesis by blast
qed

section \<open>The time-weighted average on reachable accounts\<close>















lemma polled_reachable: "polled C W s \<Longrightarrow> reachable C W s"
  by (induction rule: polled.induct) (auto intro: reachable.intros)




end
